theory Spec2Isabelle
  imports Main "HOL-Library.Char_ord" "HOL-Library.List_Lexorder"
begin

section \<open>Data model of install-pacman-packages.py\<close>

text \<open>
  The script is modelled function by function.  Objects live in a store and are named by
  their address, since \<^verbatim>\<open>pkg_dict\<close> may hold one object under two keys and the script
  changes objects in place.  A function that can raise returns a sum, \<open>Inl\<close> the
  exception; a recursive function takes the number of nested calls still allowed, and
  raises \<^verbatim>\<open>RecursionError\<close> at 0, as the interpreter does at its recursion limit.  The
  limit can also be reached in the calls that a function body makes outside the script;
  this is modelled where the script reacts to it, in the \<^verbatim>\<open>try\<close> block of
  \<^verbatim>\<open>determine_package_info\<close>, which catches the \<^verbatim>\<open>RecursionError\<close>; anywhere else it
  leaves the recursive function as the one raised at 0 does.
  What lies outside the script (the module \<^verbatim>\<open>pacman\<close>, subprocesses, archives, the
  directory, regular expressions, \<^verbatim>\<open>LooseVersion\<close>) is a parameter; these collaborators are
  taken to answer, not to raise.  Strings are ASCII.  Progress messages are left out; of
  the output only the reports of \<^verbatim>\<open>print_installation_log\<close> are kept.
\<close>

text \<open>
  Exceptions that leave a function of the script.  \<open>SystemExit\<close> is raised by
  \<^verbatim>\<open>exit(n)\<close> and is not an \<^verbatim>\<open>Exception\<close>; \<open>RecursionError\<close> is what Python
  raises when the nesting of calls passes the interpreter's limit.
\<close>

datatype exn =
    RecursionError
  | KeyError string
  | IndexError
  | TypeError
  | NotImplementedError
  | SystemExit int

text \<open>The exception objects the script stores in \<^verbatim>\<open>error_info\<close>.\<close>

datatype error =
    InvalidPacmanPackageError string
  | CachedPackageUnavailable string
  | Exception string

text \<open>\<^verbatim>\<open>class PackageRepository\<close>.\<close>

datatype PackageRepository = OFFICIAL | LOCAL

text \<open>The class of an object: \<^verbatim>\<open>type(pkg)\<close>.\<close>

datatype pyclass = PackageBase | CachedPackage | OfficialPackage

text \<open>What \<^verbatim>\<open>_parse_from_string\<close> returns: \<^verbatim>\<open>None\<close>, a string or a list.\<close>

datatype parsed = PNone | PStr string | PList "string list"

text \<open>\<^verbatim>\<open>class PackageBase\<close> with the attribute \<^verbatim>\<open>path\<close> of \<^verbatim>\<open>CachedPackage\<close>.\<close>

record pkg =
  cls :: pyclass
  name :: "string option"
  version :: "string option"
  architecture :: parsed
  repository :: "PackageRepository option"
  dependencies :: "string list"
  license :: parsed
  error_info :: "error option"
  installation_status :: int
  path :: "string option"

text \<open>The class attributes of \<^verbatim>\<open>PackageBase\<close>: what a new object reads before any assignment.\<close>

definition class_defaults :: "pyclass \<Rightarrow> pkg" where
  "class_defaults c =
     \<lparr>cls = c, name = None, version = None, architecture = PNone, repository = None,
      dependencies = [], license = PNone, error_info = None, installation_status = 0,
      path = None\<rparr>"

text \<open>
  Calls to the collaborators outside the script, in the order they are made: the module
  \<^verbatim>\<open>pacman\<close>, the subprocesses started by \<^verbatim>\<open>run_command\<close>, and the archive read of
  \<^verbatim>\<open>determine_package_info\<close>.
\<close>

datatype call =
    IsInstalled "string option"
  | GetInfo "string option"
  | RunCommand "string list"
  | ReadArchive "string option"

text \<open>
  The collaborators.  Each answer may depend on the calls made so far, so that an
  install can change what a later query returns.
  \<^item> \<open>is_installed\<close>, \<open>get_info_Version\<close>: \<^verbatim>\<open>pacman.is_installed\<close> and
    \<^verbatim>\<open>pacman.get_info(..)['Version']\<close>;
  \<^item> \<open>subprocess\<close>: return code, output lines and error lines of a command;
  \<^item> \<open>read_pkginfo\<close>: the decoded content of the entry \<^verbatim>\<open>.PKGINFO\<close> of an archive, \<open>None\<close>
    when opening the archive, finding the entry or reading it raises;
  \<^item> \<open>version_lt\<close>: \<^verbatim>\<open>LooseVersion(a) < LooseVersion(b)\<close> of distutils;
  \<^item> \<open>recursionlimit\<close>: how deep calls may nest;
  \<^item> \<open>archive_frames\<close>, \<open>alias_frames\<close>: how many nested calls the archive read of
    \<^verbatim>\<open>determine_package_info\<close> (\<^verbatim>\<open>tarfile.open\<close> and what follows) and the \<^verbatim>\<open>Popen\<close> of
    \<^verbatim>\<open>_get_dependencies_from_alias\<close> take below the body of \<^verbatim>\<open>get_package_recursive\<close>; with
    fewer left, the interpreter raises \<^verbatim>\<open>RecursionError\<close> there, inside the \<^verbatim>\<open>try\<close> block;
  \<^item> \<open>geteuid\<close>, \<open>get_available\<close> (the \<^verbatim>\<open>'id'\<close> of every entry), \<open>listdir\<close>, \<open>isfile\<close>,
    \<open>file_name_match\<close> (the three groups of the regular expression of
    \<^verbatim>\<open>_parse_file_name\<close> on a path, \<open>None\<close> when it does not match): what \<^verbatim>\<open>main\<close> and
    the constructor of \<^verbatim>\<open>CachedPackage\<close> read.
\<close>

record env =
  is_installed :: "call list \<Rightarrow> string option \<Rightarrow> bool"
  get_info_Version :: "call list \<Rightarrow> string option \<Rightarrow> string"
  subprocess :: "call list \<Rightarrow> string list \<Rightarrow> int \<times> string list \<times> string list"
  read_pkginfo :: "call list \<Rightarrow> string option \<Rightarrow> string option"
  version_lt :: "string option \<Rightarrow> string option \<Rightarrow> exn + bool"
  recursionlimit :: nat
  archive_frames :: nat
  alias_frames :: nat
  geteuid :: nat
  get_available :: "string list"
  listdir :: "string \<Rightarrow> string list"
  isfile :: "string \<Rightarrow> bool"
  file_name_match :: "string \<Rightarrow> (string \<times> string \<times> string) option"

text \<open>The module-level variables, assigned once by \<^verbatim>\<open>main\<close>; \<open>cached_packages\<close> holds
  the addresses of the objects of the list.\<close>

record globals =
  pacman_cache_dir :: string
  packages_in_offical_repositories :: "string list"
  cached_packages :: "nat list"

text \<open>
  The mutable state: the objects (the address of an object is its position; a new object is
  put at the end), \<^verbatim>\<open>pkg_dict\<close> (names to addresses, so that two keys can hold the same
  object), and the calls made so far.
\<close>

record state =
  heap :: "pkg list"
  pkg_dict :: "string \<rightharpoonup> nat"
  calls :: "call list"

definition update_obj :: "nat \<Rightarrow> (pkg \<Rightarrow> pkg) \<Rightarrow> state \<Rightarrow> state" where
  "update_obj a f s = s\<lparr>heap := (heap s)[a := f (heap s ! a)]\<rparr>"

definition new_obj :: "pkg \<Rightarrow> state \<Rightarrow> nat \<times> state" where
  "new_obj p s = (length (heap s), s\<lparr>heap := heap s @ [p]\<rparr>)"

section \<open>Strings\<close>

text \<open>\<^verbatim>\<open>str(x)\<close> of an optional string as \<^verbatim>\<open>format\<close> prints it.\<close>

definition str_opt :: "string option \<Rightarrow> string" where
  "str_opt x = (case x of None \<Rightarrow> ''None'' | Some s \<Rightarrow> s)"

fun join :: "string \<Rightarrow> string list \<Rightarrow> string" where
  "join sep [] = []"
| "join sep [x] = x"
| "join sep (x # y # ys) = x @ sep @ join sep (y # ys)"

text \<open>\<^verbatim>\<open>str.splitlines\<close> on the line boundaries of ASCII; \<^verbatim>\<open>\r\n\<close> is one boundary.\<close>

definition is_linebreak :: "char \<Rightarrow> bool" where
  "is_linebreak c \<longleftrightarrow> c \<in> set [CHR 0x0A, CHR 0x0D, CHR 0x0B, CHR 0x0C, CHR 0x1C, CHR 0x1D, CHR 0x1E]"

fun splitlines_from :: "string \<Rightarrow> string \<Rightarrow> string list" where
  "splitlines_from cur [] = (if cur = [] then [] else [cur])"
| "splitlines_from cur [c] = (if is_linebreak c then [cur] else [cur @ [c]])"
| "splitlines_from cur (c # d # cs) =
     (if c = CHR 0x0D \<and> d = CHR 0x0A then cur # splitlines_from [] cs
      else if is_linebreak c then cur # splitlines_from [] (d # cs)
      else splitlines_from (cur @ [c]) (d # cs))"

definition splitlines :: "string \<Rightarrow> string list" where
  "splitlines s = splitlines_from [] s"

text \<open>\<^verbatim>\<open>str.lower\<close> on ASCII letters.\<close>

definition lower_char :: "char \<Rightarrow> char" where
  "lower_char c =
     (case map_of (zip ''ABCDEFGHIJKLMNOPQRSTUVWXYZ'' ''abcdefghijklmnopqrstuvwxyz'') c of
        None \<Rightarrow> c | Some d \<Rightarrow> d)"

definition lower :: "string \<Rightarrow> string" where
  "lower s = map lower_char s"

section \<open>Collaborator calls\<close>

text \<open>\<^verbatim>\<open>run_command\<close>: the subprocess answers and the call is recorded.\<close>

definition run_command :: "env \<Rightarrow> string list \<Rightarrow> state \<Rightarrow> (int \<times> string list \<times> string list) \<times> state" where
  "run_command e command s = (subprocess e (calls s) command, s\<lparr>calls := calls s @ [RunCommand command]\<rparr>)"

text \<open>\<^verbatim>\<open>PackageBase.get_installation_status\<close> of the object at address \<open>a\<close>.\<close>

definition get_installation_status :: "env \<Rightarrow> nat \<Rightarrow> state \<Rightarrow> state" where
  "get_installation_status e a s =
     (let n = name (heap s ! a);
          inst = is_installed e (calls s) n;
          s1 = s\<lparr>calls := calls s @ [IsInstalled n]\<rparr>
      in if inst then
           (let v = get_info_Version e (calls s1) n;
                s2 = s1\<lparr>calls := calls s1 @ [GetInfo n]\<rparr>
            in if Some v = version (heap s2 ! a)
               then update_obj a (\<lambda>p. p\<lparr>installation_status := 1\<rparr>) s2
               else update_obj a (\<lambda>p. p\<lparr>installation_status := 2\<rparr>) s2)
         else update_obj a (\<lambda>p. p\<lparr>installation_status := 0\<rparr>) s1)"

section \<open>Cache index: \<^verbatim>\<open>get_cached_package\<close>\<close>

text \<open>The second loop of \<^verbatim>\<open>get_cached_package\<close>: \<open>p\<close> is \<^verbatim>\<open>pkg\<close>, replaced by a
  record whose version compares greater.\<close>

fun best_version :: "env \<Rightarrow> pkg list \<Rightarrow> nat \<Rightarrow> nat list \<Rightarrow> exn + nat" where
  "best_version e h p [] = Inr p"
| "best_version e h p (c # cs) =
     (case version_lt e (version (h ! p)) (version (h ! c)) of
        Inl x \<Rightarrow> Inl x
      | Inr b \<Rightarrow> best_version e h (if b then c else p) cs)"

definition chached_versions :: "globals \<Rightarrow> string \<Rightarrow> state \<Rightarrow> nat list" where
  "chached_versions g pkg_name s = filter (\<lambda>a. name (heap s ! a) = Some pkg_name) (cached_packages g)"

definition get_cached_package :: "env \<Rightarrow> globals \<Rightarrow> string \<Rightarrow> state \<Rightarrow> exn + (nat option \<times> state)" where
  "get_cached_package e g pkg_name s =
     (case chached_versions g pkg_name s of
        [] \<Rightarrow> Inr (None, s)
      | c # cs \<Rightarrow>
          (case best_version e (heap s) c (c # cs) of
             Inl x \<Rightarrow> Inl x
           | Inr a \<Rightarrow> Inr (Some a, get_installation_status e a s)))"

text \<open>
  Modelled from the spec: the class \<^verbatim>\<open>LooseVersion\<close> comes from distutils and is not in the
  repository; the spec calls its order dotted-numeric (\<^verbatim>\<open>2.10\<close> is greater than \<^verbatim>\<open>2.9\<close>).
  A version string is cut into runs of digits (read as numbers), runs of lower-case
  letters and runs of other characters, the dots dropped; the lists of components are
  compared as Python compares lists, and comparing a number with a string raises
  \<^verbatim>\<open>TypeError\<close>.
\<close>

datatype component = CInt nat | CStr string

datatype piece = Digits string | Letters string | Dot | Other string

definition is_digit :: "char \<Rightarrow> bool" where
  "is_digit c \<longleftrightarrow> c \<in> set ''0123456789''"

definition is_lower :: "char \<Rightarrow> bool" where
  "is_lower c \<longleftrightarrow> c \<in> set ''abcdefghijklmnopqrstuvwxyz''"

fun push_char :: "char \<Rightarrow> piece list \<Rightarrow> piece list" where
  "push_char c ps =
     (if c = CHR ''.'' then Dot # ps
      else if is_digit c then
        (case ps of Digits d # r \<Rightarrow> Digits (c # d) # r | _ \<Rightarrow> Digits [c] # ps)
      else if is_lower c then
        (case ps of Letters d # r \<Rightarrow> Letters (c # d) # r | _ \<Rightarrow> Letters [c] # ps)
      else
        (case ps of Other d # r \<Rightarrow> Other (c # d) # r | _ \<Rightarrow> Other [c] # ps))"

definition digit_val :: "char \<Rightarrow> nat" where
  "digit_val c = length (takeWhile (\<lambda>d. d \<noteq> c) ''0123456789'')"

definition int_of_digits :: "string \<Rightarrow> nat" where
  "int_of_digits ds = foldl (\<lambda>n c. 10 * n + digit_val c) 0 ds"

fun components :: "piece list \<Rightarrow> component list" where
  "components [] = []"
| "components (Digits d # ps) = CInt (int_of_digits d) # components ps"
| "components (Letters l # ps) = CStr l # components ps"
| "components (Dot # ps) = components ps"
| "components (Other x # ps) = CStr x # components ps"

definition LooseVersion :: "string \<Rightarrow> component list" where
  "LooseVersion vstring = components (foldr push_char vstring [])"

fun component_lt :: "component \<Rightarrow> component \<Rightarrow> exn + bool" where
  "component_lt (CInt a) (CInt b) = Inr (a < b)"
| "component_lt (CStr a) (CStr b) = Inr (a < b)"
| "component_lt _ _ = Inl TypeError"

fun list_lt :: "component list \<Rightarrow> component list \<Rightarrow> exn + bool" where
  "list_lt [] [] = Inr False"
| "list_lt [] (y # ys) = Inr True"
| "list_lt (x # xs) [] = Inr False"
| "list_lt (x # xs) (y # ys) = (if x = y then list_lt xs ys else component_lt x y)"

definition LooseVersion_lt :: "string option \<Rightarrow> string option \<Rightarrow> exn + bool" where
  "LooseVersion_lt a b =
     (case (a, b) of
        (Some u, Some v) \<Rightarrow> list_lt (LooseVersion u) (LooseVersion v)
      | _ \<Rightarrow> Inl TypeError)"

section \<open>\<^verbatim>\<open>CachedPackage\<close>\<close>

text \<open>\<^verbatim>\<open>CachedPackage.__init__\<close> with \<^verbatim>\<open>_parse_file_name\<close>: the exception of a file name
  that does not match is kept in \<^verbatim>\<open>error_info\<close>.\<close>

definition CachedPackage_init :: "env \<Rightarrow> string \<Rightarrow> pkg" where
  "CachedPackage_init e p =
     (case file_name_match e p of
        Some (n, v, a) \<Rightarrow>
          (class_defaults CachedPackage)\<lparr>path := Some p, name := Some n, version := Some v,
             architecture := PStr a\<rparr>
      | None \<Rightarrow>
          (class_defaults CachedPackage)\<lparr>path := Some p,
             error_info := Some (InvalidPacmanPackageError
               (''Failed to parse package file name '' @ [CHR 0x27] @ p @ [CHR 0x27]))\<rparr>)"

text \<open>\<^verbatim>\<open>determine_repository\<close>: \<^verbatim>\<open>OFFICIAL\<close> when the name is the \<^verbatim>\<open>'id'\<close> of an entry of
  \<^verbatim>\<open>packages_in_offical_repositories\<close>, \<^verbatim>\<open>LOCAL\<close> otherwise.\<close>

definition determine_repository :: "globals \<Rightarrow> nat \<Rightarrow> state \<Rightarrow> state" where
  "determine_repository g a s =
     (if name (heap s ! a) \<in> set (map Some (packages_in_offical_repositories g))
      then update_obj a (\<lambda>p. p\<lparr>repository := Some OFFICIAL\<rparr>) s
      else update_obj a (\<lambda>p. p\<lparr>repository := Some LOCAL\<rparr>) s)"

text \<open>\<^verbatim>\<open>_parse_from_string\<close> on the lines of the descriptor: a line matches
  \<^verbatim>\<open>^name = (.+)$\<close> when it starts with the key and \<^verbatim>\<open> = \<close> and goes on.\<close>

definition line_value :: "string \<Rightarrow> string \<Rightarrow> string option" where
  "line_value key line =
     (let k = key @ '' = ''
      in if take (length k) line = k \<and> length k < length line
         then Some (drop (length k) line) else None)"

definition parse_from_string :: "string \<Rightarrow> string \<Rightarrow> parsed" where
  "parse_from_string key string =
     (case List.map_filter (line_value key) (splitlines string) of
        [] \<Rightarrow> PNone
      | [v] \<Rightarrow> PStr v
      | vs \<Rightarrow> PList vs)"

text \<open>The substitution of \<^verbatim>\<open>_get_dependencies_from_alias\<close>: a name is cut before the first
  \<^verbatim>\<open><\<close> or \<^verbatim>\<open>>\<close> that is not its first character.\<close>

definition strip_constraint :: "string \<Rightarrow> string" where
  "strip_constraint d =
     (case d of [] \<Rightarrow> []
      | c # cs \<Rightarrow> c # takeWhile (\<lambda>x. x \<noteq> CHR ''<'' \<and> x \<noteq> CHR ''>'') cs)"

text \<open>\<^verbatim>\<open>_get_dependencies_from_alias\<close>, the loop with the list built so far.  The calls
  made before an exception stay recorded.\<close>

fun get_dependencies_from_alias ::
  "env \<Rightarrow> string list \<Rightarrow> string list \<Rightarrow> state \<Rightarrow> (exn + string list) \<times> state" where
  "get_dependencies_from_alias e [] deps s = (Inr deps, s)"
| "get_dependencies_from_alias e (d # ds) deps s =
     (let dep_alias_name = strip_constraint d;
          ((rc, out, err), s1) = run_command e [''package-query'', ''-QASiif'', ''%n'', dep_alias_name] s
      in if rc \<noteq> 0 then
           (if out = [] then (Inl IndexError, s1)
            else get_dependencies_from_alias e ds (deps @ [last out]) s1)
         else get_dependencies_from_alias e ds (deps @ [dep_alias_name]) s1)"

definition parse_error :: "pkg \<Rightarrow> error" where
  "parse_error p = InvalidPacmanPackageError
     (''Failed to parse package file name '' @ [CHR 0x27] @ str_opt (path p) @ [CHR 0x27])"

text \<open>
  \<^verbatim>\<open>determine_package_info\<close>: only for a \<^verbatim>\<open>LOCAL\<close> object; every exception of the body
  ends in \<^verbatim>\<open>error_info\<close>.  That holds for a \<^verbatim>\<open>RecursionError\<close> too, which is an
  \<^verbatim>\<open>Exception\<close>: \<open>depth\<close> is the number of nested calls still allowed in the body of
  \<^verbatim>\<open>get_package_recursive\<close>, and when the archive read or the \<^verbatim>\<open>Popen\<close> of the first alias
  query needs more, the \<^verbatim>\<open>except\<close> branch runs.
\<close>

definition determine_package_info :: "env \<Rightarrow> nat \<Rightarrow> nat \<Rightarrow> state \<Rightarrow> state" where
  "determine_package_info e depth a s =
     (if repository (heap s ! a) = Some LOCAL then
        (if depth < archive_frames e
         then update_obj a (\<lambda>p. p\<lparr>error_info := Some (parse_error p)\<rparr>) s
         else
           (let content = read_pkginfo e (calls s) (path (heap s ! a));
                s1 = s\<lparr>calls := calls s @ [ReadArchive (path (heap s ! a))]\<rparr>
            in case content of
                 None \<Rightarrow> update_obj a (\<lambda>p. p\<lparr>error_info := Some (parse_error p)\<rparr>) s1
               | Some pkginfo_file_content \<Rightarrow>
                   (let (r, s2) =
                          (case parse_from_string ''depend'' pkginfo_file_content of
                             PNone \<Rightarrow> (Inr [], s1)
                           | PStr d \<Rightarrow>
                               if depth < alias_frames e then (Inl RecursionError, s1)
                               else get_dependencies_from_alias e [d] [] s1
                           | PList ds \<Rightarrow>
                               if depth < alias_frames e then (Inl RecursionError, s1)
                               else get_dependencies_from_alias e ds [] s1)
                    in case r of
                         Inl x \<Rightarrow> update_obj a (\<lambda>p. p\<lparr>error_info := Some (parse_error p)\<rparr>) s2
                       | Inr deps \<Rightarrow>
                           update_obj a (\<lambda>p. p\<lparr>dependencies := deps,
                             architecture := parse_from_string ''arch'' pkginfo_file_content,
                             license := parse_from_string ''license'' pkginfo_file_content\<rparr>) s2)))
      else s)"

text \<open>\<^verbatim>\<open>CachedPackage.install\<close>.  The progress messages are not part of the state.\<close>

definition CachedPackage_install :: "env \<Rightarrow> globals \<Rightarrow> nat \<Rightarrow> bool \<Rightarrow> state \<Rightarrow> exn + state" where
  "CachedPackage_install e g a frc s =
     (let st = installation_status (heap s ! a)
      in if st = 0 \<or> st = 2 \<or> frc then
           (let pcm_cmd = [''pacman'', ''-U'', ''--noconfirm'', ''--noprogressbar'',
                           ''--cachedir'', pacman_cache_dir g]
                          @ (if st = 1 then [''--force''] else [])
            in case path (heap s ! a) of
                 None \<Rightarrow> Inl TypeError
               | Some p \<Rightarrow>
                   (let ((rc, out, err), s1) = run_command e (pcm_cmd @ [p]) s
                    in if rc \<noteq> 0 then
                         Inr (update_obj a (\<lambda>q. q\<lparr>installation_status := - 1,
                           error_info := Some (Exception (''Failed to install package ''
                             @ str_opt (name q) @ '' '' @ str_opt (version q) @ '': ''
                             @ join [CHR 0x0A] err))\<rparr>) s1)
                       else if st = 1
                         then Inr (update_obj a (\<lambda>q. q\<lparr>installation_status := 4\<rparr>) s1)
                         else Inr (update_obj a (\<lambda>q. q\<lparr>installation_status := 3\<rparr>) s1)))
         else Inr s)"

section \<open>\<^verbatim>\<open>OfficialPackage\<close>\<close>

text \<open>\<^verbatim>\<open>OfficialPackage.__init__\<close>: a new object, with its installation status read.\<close>

definition OfficialPackage_init :: "env \<Rightarrow> string \<Rightarrow> state \<Rightarrow> nat \<times> state" where
  "OfficialPackage_init e n s =
     (let (a, s1) = new_obj ((class_defaults OfficialPackage)\<lparr>name := Some n,
                                repository := Some OFFICIAL\<rparr>) s
      in (a, get_installation_status e a s1))"

text \<open>\<^verbatim>\<open>OfficialPackage.install\<close>.\<close>

definition OfficialPackage_install :: "env \<Rightarrow> globals \<Rightarrow> nat \<Rightarrow> bool \<Rightarrow> state \<Rightarrow> exn + state" where
  "OfficialPackage_install e g a frc s =
     (let st = installation_status (heap s ! a);
          pcm_cmd = [''pacman'', ''-S'', ''--needed'', ''--noconfirm'', ''--noprogressbar'',
                     ''--cachedir'', pacman_cache_dir g]
                    @ (if st = 1 then [''--force''] else [])
      in case name (heap s ! a) of
           None \<Rightarrow> Inl TypeError
         | Some n \<Rightarrow>
             (let ((rc, out, err), s1) = run_command e (pcm_cmd @ [n]) s
              in if rc \<noteq> 0 then
                   Inr (update_obj a (\<lambda>q. q\<lparr>installation_status := - 1,
                     error_info := Some (Exception (''Failed to install package ''
                       @ str_opt (name q) @ '': '' @ join [CHR 0x0A] err))\<rparr>) s1)
                 else if st = 1
                   then Inr (update_obj a (\<lambda>q. q\<lparr>installation_status := 4\<rparr>) s1)
                   else Inr (update_obj a (\<lambda>q. q\<lparr>installation_status := 3\<rparr>) s1)))"

text \<open>\<^verbatim>\<open>pkg.install(force)\<close>: the method of the object's class; that of \<^verbatim>\<open>PackageBase\<close>
  raises.\<close>

definition install :: "env \<Rightarrow> globals \<Rightarrow> nat \<Rightarrow> bool \<Rightarrow> state \<Rightarrow> exn + state" where
  "install e g a frc s =
     (case cls (heap s ! a) of
        PackageBase \<Rightarrow> Inl NotImplementedError
      | CachedPackage \<Rightarrow> CachedPackage_install e g a frc s
      | OfficialPackage \<Rightarrow> OfficialPackage_install e g a frc s)"

section \<open>Resolution: \<^verbatim>\<open>get_package_recursive\<close>\<close>

text \<open>The loop over the provider names: \<^verbatim>\<open>pkg\<close> is the result of the last lookup, and the
  loop is left at the first hit.\<close>

fun first_cached :: "env \<Rightarrow> globals \<Rightarrow> string list \<Rightarrow> state \<Rightarrow> exn + (nat option \<times> state)" where
  "first_cached e g [] s = Inr (None, s)"
| "first_cached e g (rpn # out) s =
     (case get_cached_package e g rpn s of
        Inl x \<Rightarrow> Inl x
      | Inr (Some a, s1) \<Rightarrow> Inr (Some a, s1)
      | Inr (None, s1) \<Rightarrow> first_cached e g out s1)"

text \<open>The node of a package that is nowhere: a \<^verbatim>\<open>PackageBase\<close> with
  \<^verbatim>\<open>CachedPackageUnavailable\<close>, stored under the requested name.\<close>

definition unavailable :: "string \<Rightarrow> state \<Rightarrow> state" where
  "unavailable pkg_name s =
     (let (a, s1) = new_obj ((class_defaults PackageBase)\<lparr>name := Some pkg_name,
                       error_info := Some (CachedPackageUnavailable
                         (''No cached package available for '' @ [CHR 0x27] @ pkg_name @ [CHR 0x27]))\<rparr>) s
      in s1\<lparr>pkg_dict := (pkg_dict s1)(pkg_name \<mapsto> a)\<rparr>)"

text \<open>The official-repository query of both branches: on success an \<^verbatim>\<open>OfficialPackage\<close>
  for the last output line, stored under both names.\<close>

definition official_or :: "env \<Rightarrow> string \<Rightarrow> state \<Rightarrow> (state \<Rightarrow> exn + (nat option \<times> state)) \<Rightarrow> exn + (nat option \<times> state)" where
  "official_or e pkg_name s otherwise =
     (let ((rc, out, err), s1) = run_command e [''package-query'', ''-Siif'', ''%n'', pkg_name] s
      in if rc = 0 then
           (if out = [] then Inl IndexError
            else (let real_pkg_name = last out;
                      (a, s2) = OfficialPackage_init e real_pkg_name s1
                  in Inr (None, s2\<lparr>pkg_dict := (pkg_dict s2)(pkg_name \<mapsto> a, real_pkg_name \<mapsto> a)\<rparr>)))
         else otherwise s1)"

text \<open>
  Lines 376 to 432 of \<^verbatim>\<open>get_package_recursive\<close>, for a name that is not a key.  The
  result \<open>None\<close> is a \<^verbatim>\<open>return\<close> of these lines; \<open>Some a\<close> is \<^verbatim>\<open>pkg\<close> when control
  reaches \<^verbatim>\<open>pkg.determine_repository()\<close>.
\<close>

definition resolve :: "env \<Rightarrow> globals \<Rightarrow> string \<Rightarrow> state \<Rightarrow> exn + (nat option \<times> state)" where
  "resolve e g pkg_name s =
     (case get_cached_package e g pkg_name s of
        Inl x \<Rightarrow> Inl x
      | Inr (Some a, s1) \<Rightarrow> Inr (Some a, s1\<lparr>pkg_dict := (pkg_dict s1)(pkg_name \<mapsto> a)\<rparr>)
      | Inr (None, s1) \<Rightarrow>
          (let ((rc, out, err), s2) = run_command e [''package-query'', ''-Qiif'', ''%n'', pkg_name] s1
           in if rc = 0 then
                (case out of
                   [] \<Rightarrow> Inl IndexError
                 | real_pkg_name # _ \<Rightarrow>
                     (case get_cached_package e g real_pkg_name s2 of
                        Inl x \<Rightarrow> Inl x
                      | Inr (Some a, s3) \<Rightarrow>
                          Inr (Some a, s3\<lparr>pkg_dict := (pkg_dict s3)(pkg_name \<mapsto> a, real_pkg_name \<mapsto> a)\<rparr>)
                      | Inr (None, s3) \<Rightarrow>
                          official_or e pkg_name s3 (\<lambda>s4. Inr (None, unavailable pkg_name s4))))
              else
                official_or e pkg_name s2 (\<lambda>s3.
                  (let ((rc, out, err), s4) = run_command e [''package-query'', ''-Aiif'', ''%n'', pkg_name] s3
                   in case (if rc = 0 then first_cached e g out s4 else Inr (None, s4)) of
                        Inl x \<Rightarrow> Inl x
                      | Inr (Some a, s5) \<Rightarrow> Inr (Some a, s5)
                      | Inr (None, s5) \<Rightarrow> Inr (None, unavailable pkg_name s5)))))"

text \<open>A \<^verbatim>\<open>for\<close> loop whose body may raise.\<close>

fun for_each :: "('a \<Rightarrow> 's \<Rightarrow> exn + 's) \<Rightarrow> 'a list \<Rightarrow> 's \<Rightarrow> exn + 's" where
  "for_each f [] s = Inr s"
| "for_each f (x # xs) s = (case f x s of Inl e \<Rightarrow> Inl e | Inr s1 \<Rightarrow> for_each f xs s1)"

text \<open>\<^verbatim>\<open>get_package_recursive\<close>; the first argument is the number of nested calls that are
  still allowed.\<close>

primrec get_package_recursive :: "nat \<Rightarrow> env \<Rightarrow> globals \<Rightarrow> string \<Rightarrow> state \<Rightarrow> exn + state" where
  "get_package_recursive 0 e g pkg_name s = Inl RecursionError"
| "get_package_recursive (Suc depth) e g pkg_name s =
     (if pkg_dict s pkg_name \<noteq> None then Inr s
      else
        (case resolve e g pkg_name s of
           Inl x \<Rightarrow> Inl x
         | Inr (None, s1) \<Rightarrow> Inr s1
         | Inr (Some a, s1) \<Rightarrow>
             (let s2 = determine_package_info e depth a (determine_repository g a s1)
              in if error_info (heap s2 ! a) \<noteq> None then Inr s2
                 else if repository (heap s2 ! a) = Some LOCAL
                   then for_each (get_package_recursive depth e g) (dependencies (heap s2 ! a)) s2
                   else Inr s2)))"

section \<open>Installation: \<^verbatim>\<open>install_package_recursive\<close>\<close>

text \<open>The loop over the dependencies of the object at \<open>a\<close>; \<open>rec\<close> is the recursive
  call.  The result is \<open>False\<close> when the loop ended in \<^verbatim>\<open>return\<close>.\<close>

fun install_dependencies ::
  "(string \<Rightarrow> state \<Rightarrow> exn + state) \<Rightarrow> nat \<Rightarrow> string list \<Rightarrow> state \<Rightarrow> exn + (bool \<times> state)" where
  "install_dependencies rec a [] s = Inr (True, s)"
| "install_dependencies rec a (dependency # ds) s =
     (case pkg_dict s dependency of
        None \<Rightarrow> Inl (KeyError dependency)
      | Some pkg_dependency \<Rightarrow>
          (case rec dependency s of
             Inl x \<Rightarrow> Inl x
           | Inr s1 \<Rightarrow>
               if error_info (heap s1 ! pkg_dependency) \<noteq> None
               then Inr (False, update_obj a (\<lambda>p. p\<lparr>installation_status := - 2\<rparr>) s1)
               else install_dependencies rec a ds s1))"

primrec install_package_recursive ::
  "nat \<Rightarrow> env \<Rightarrow> globals \<Rightarrow> bool \<Rightarrow> bool \<Rightarrow> string \<Rightarrow> state \<Rightarrow> exn + state" where
  "install_package_recursive 0 e g uco frc pkg_name s = Inl RecursionError"
| "install_package_recursive (Suc depth) e g uco frc pkg_name s =
     (case pkg_dict s pkg_name of
        None \<Rightarrow> Inl (KeyError pkg_name)
      | Some a \<Rightarrow>
          if error_info (heap s ! a) \<noteq> None then Inr s
          else if cls (heap s ! a) = OfficialPackage then
            (if uco
             then Inr (update_obj a (\<lambda>p. p\<lparr>error_info := Some (Exception
                    (''Official package '' @ [CHR 0x27] @ pkg_name @ [CHR 0x27] @ '' not found in cache''))\<rparr>) s)
             else install e g a frc s)
          else
            (case install_dependencies (install_package_recursive depth e g uco frc) a
                    (dependencies (heap s ! a)) s of
               Inl x \<Rightarrow> Inl x
             | Inr (False, s1) \<Rightarrow> Inr s1
             | Inr (True, s1) \<Rightarrow> install e g a frc s1))"

section \<open>Report: \<^verbatim>\<open>format_log\<close> and \<^verbatim>\<open>print_installation_log_recursive\<close>\<close>

text \<open>\<^verbatim>\<open>str(pkg.error_info)\<close>.\<close>

definition str_error :: "error option \<Rightarrow> string" where
  "str_error x =
     (case x of
        None \<Rightarrow> ''None''
      | Some (InvalidPacmanPackageError m) \<Rightarrow> m
      | Some (CachedPackageUnavailable m) \<Rightarrow> m
      | Some (Exception m) \<Rightarrow> m)"

text \<open>\<^verbatim>\<open>format_log\<close>.  Its first statement takes \<^verbatim>\<open>len(pkg.name)\<close> and
  \<^verbatim>\<open>len(pkg.version)\<close>, which raises \<^verbatim>\<open>TypeError\<close> on \<^verbatim>\<open>None\<close>.\<close>

definition format_log :: "pkg \<Rightarrow> string \<Rightarrow> string \<Rightarrow> exn + string" where
  "format_log p msg prefix =
     (case name p of
        None \<Rightarrow> Inl TypeError
      | Some n \<Rightarrow>
          (case version p of
             None \<Rightarrow> Inl TypeError
           | Some v \<Rightarrow>
               (let prefix2 = replicate (length n + length v + 3) CHR '' '';
                    msg_lines = splitlines msg;
                    msg1 = (if length msg_lines > 1
                            then join [CHR 0x0A]
                                   (hd msg_lines # map (\<lambda>l. prefix @ prefix2 @ l) (tl msg_lines))
                            else msg)
                in if v \<noteq> [] then Inr (n @ '' '' @ v @ '': '' @ msg1)
                   else Inr (n @ '': '' @ msg1))))"

text \<open>The connectors of the tree, as UTF-8.\<close>

definition branch_connector :: string where
  "branch_connector = [CHR 0xE2, CHR 0x94, CHR 0x9C, CHR 0xE2, CHR 0x94, CHR 0x80, CHR 0xE2, CHR 0x94, CHR 0x80, CHR '' '']"

definition corner_connector :: string where
  "corner_connector = [CHR 0xE2, CHR 0x94, CHR 0x94, CHR 0xE2, CHR 0x94, CHR 0x80, CHR 0xE2, CHR 0x94, CHR 0x80, CHR '' '']"

definition enumerate_package_names :: "'a list \<Rightarrow> (nat \<times> nat \<times> 'a) list" where
  "enumerate_package_names sequence =
     map (\<lambda>(count, v). (count, length sequence - count, v)) (enumerate 0 sequence)"

text \<open>The line of one package: the value of \<^verbatim>\<open>success\<close> after the branches and the lines
  appended to \<^verbatim>\<open>log\<close>.\<close>

definition log_line :: "pkg \<Rightarrow> bool \<Rightarrow> string \<Rightarrow> string \<Rightarrow> exn + (bool \<times> string list)" where
  "log_line p success log_prefix intermediate_prefix =
     (if \<not> success then
        (case format_log p (''Dependency Failed: '' @ str_error (error_info p)) intermediate_prefix of
           Inl x \<Rightarrow> Inl x | Inr l \<Rightarrow> Inr (success, [log_prefix @ l]))
      else if error_info p \<noteq> None then
        (case format_log p (''Failed: '' @ str_error (error_info p)) intermediate_prefix of
           Inl x \<Rightarrow> Inl x | Inr l \<Rightarrow> Inr (False, [log_prefix @ l]))
      else if installation_status p = 1 then
        (case format_log p ''Skipped'' [] of
           Inl x \<Rightarrow> Inl x | Inr l \<Rightarrow> Inr (success, [log_prefix @ l]))
      else if installation_status p = 3 then
        (case format_log p ''Successfully installed'' [] of
           Inl x \<Rightarrow> Inl x | Inr l \<Rightarrow> Inr (success, [log_prefix @ l]))
      else if installation_status p = 4 then
        (case format_log p ''Successfully reinstalled'' [] of
           Inl x \<Rightarrow> Inl x | Inr l \<Rightarrow> Inr (success, [log_prefix @ l]))
      else Inr (success, []))"

text \<open>The loop of \<^verbatim>\<open>print_installation_log_recursive\<close>; \<open>rec\<close> is the recursive call on
  the dependencies with a prefix.  \<^verbatim>\<open>success\<close>, \<^verbatim>\<open>log\<close> and the two prefixes live across
  the rounds.\<close>

fun log_loop ::
  "(string list \<Rightarrow> string \<Rightarrow> exn + (bool \<times> string list)) \<Rightarrow> state \<Rightarrow> string \<Rightarrow> bool \<Rightarrow>
   (nat \<times> nat \<times> string) list \<Rightarrow> bool \<Rightarrow> string list \<Rightarrow> string \<Rightarrow> string \<Rightarrow>
   exn + (bool \<times> string list)" where
  "log_loop rec s prefix is_root [] success log log_prefix intermediate_prefix = Inr (success, log)"
| "log_loop rec s prefix is_root ((pos, anchor, pkg_name) # rest) success log log_prefix intermediate_prefix =
     (case pkg_dict s pkg_name of
        None \<Rightarrow> Inl (KeyError pkg_name)
      | Some a \<Rightarrow>
          (let p = heap s ! a;
               log_prefix1 = (if is_root then [] else if anchor = 1 then prefix @ corner_connector
                              else log_prefix);
               intermediate_prefix1 = (if is_root then [] else if anchor = 1 then prefix @ ''    ''
                                       else intermediate_prefix)
           in case (if length (dependencies p) > 0 then rec (dependencies p) intermediate_prefix1
                    else Inr (success, [])) of
                Inl x \<Rightarrow> Inl x
              | Inr (success1, log_dep) \<Rightarrow>
                  (case log_line p success1 log_prefix1 intermediate_prefix1 of
                     Inl x \<Rightarrow> Inl x
                   | Inr (success2, ls) \<Rightarrow>
                       log_loop rec s prefix is_root rest success2 (log @ ls @ log_dep)
                         log_prefix1 intermediate_prefix1)))"

text \<open>\<^verbatim>\<open>print_installation_log_recursive\<close>; the arguments \<^verbatim>\<open>pkg_names\<close> and \<^verbatim>\<open>prefix\<close> come
  last, so that the recursive call, which leaves \<^verbatim>\<open>is_root\<close> at \<^verbatim>\<open>False\<close>, is passed to the
  loop as it stands.\<close>

primrec print_installation_log_recursive ::
  "nat \<Rightarrow> state \<Rightarrow> bool \<Rightarrow> string list \<Rightarrow> string \<Rightarrow> exn + (bool \<times> string list)" where
  "print_installation_log_recursive 0 s is_root pkg_names prefix = Inl RecursionError"
| "print_installation_log_recursive (Suc depth) s is_root pkg_names prefix =
     log_loop (print_installation_log_recursive depth s False) s prefix is_root
       (enumerate_package_names pkg_names) True [] (prefix @ branch_connector) (prefix @ ''|   '')"

text \<open>\<^verbatim>\<open>print_installation_log\<close>: what is printed for one requested package, the flag
  choosing the colour of every line.\<close>

definition print_installation_log :: "nat \<Rightarrow> state \<Rightarrow> string \<Rightarrow> exn + (bool \<times> string list)" where
  "print_installation_log depth s pkg_name = print_installation_log_recursive depth s True [pkg_name] []"

section \<open>\<^verbatim>\<open>main\<close> and the exit status\<close>

text \<open>The parsed command line.\<close>

record arguments =
  use_cache_only :: bool
  cache_dir :: string
  force :: bool
  package_names :: "string list"

definition path_join :: "string \<Rightarrow> string \<Rightarrow> string" where
  "path_join d f = (if d = [] \<or> last d = CHR ''/'' then d @ f else d @ ''/'' @ f)"

definition endswith :: "string \<Rightarrow> string \<Rightarrow> bool" where
  "endswith s suffix \<longleftrightarrow> length suffix \<le> length s \<and> drop (length s - length suffix) s = suffix"

text \<open>The reports printed one after the other, until one raises.\<close>

fun print_all :: "('a \<Rightarrow> exn + 'b) \<Rightarrow> 'a list \<Rightarrow> 'b list \<times> exn option" where
  "print_all f [] = ([], None)"
| "print_all f (x # xs) =
     (case f x of
        Inl e \<Rightarrow> ([], Some e)
      | Inr r \<Rightarrow> (let (rs, e) = print_all f xs in (r # rs, e)))"

text \<open>The module-level variables and the state that \<^verbatim>\<open>main\<close> builds from the cache
  directory: the objects of \<^verbatim>\<open>cached_packages\<close> get the first addresses.\<close>

definition scan_cache :: "env \<Rightarrow> string \<Rightarrow> pkg list" where
  "scan_cache e d =
     map (CachedPackage_init e)
       (filter (\<lambda>full_path. isfile e full_path \<and> endswith full_path ''.pkg.tar.xz'')
          (map (path_join d) (listdir e d)))"

definition initial_globals :: "env \<Rightarrow> arguments \<Rightarrow> globals" where
  "initial_globals e args =
     \<lparr>pacman_cache_dir = cache_dir args,
      packages_in_offical_repositories = get_available e,
      cached_packages = [0 ..< length (scan_cache e (cache_dir args))]\<rparr>"

definition initial_state :: "env \<Rightarrow> arguments \<Rightarrow> state" where
  "initial_state e args =
     \<lparr>heap = scan_cache e (cache_dir args), pkg_dict = Map.empty, calls = []\<rparr>"

text \<open>\<^verbatim>\<open>main\<close>: the reports printed, and the exception that ended it, if any.\<close>

definition main :: "env \<Rightarrow> arguments \<Rightarrow> (bool \<times> string list) list \<times> exn option" where
  "main e args =
     (if geteuid e \<noteq> 0 then ([], Some (SystemExit 1))
      else
        (let g = initial_globals e args;
             pkg_names = map lower (package_names args)
         in case for_each (get_package_recursive (recursionlimit e) e g) pkg_names
                   (initial_state e args) of
              Inl x \<Rightarrow> ([], Some x)
            | Inr s1 \<Rightarrow>
                (case for_each (install_package_recursive (recursionlimit e) e g
                                  (use_cache_only args) (force args)) pkg_names s1 of
                   Inl x \<Rightarrow> ([], Some x)
                 | Inr s2 \<Rightarrow> print_all (print_installation_log (recursionlimit e) s2) pkg_names)))"

text \<open>The end of the script: \<^verbatim>\<open>exit(0)\<close> after \<^verbatim>\<open>main\<close>, \<^verbatim>\<open>exit(1)\<close> in the handler of
  \<^verbatim>\<open>Exception\<close>, which \<^verbatim>\<open>SystemExit\<close> passes.\<close>

definition exit_status :: "env \<Rightarrow> arguments \<Rightarrow> int" where
  "exit_status e args =
     (case snd (main e args) of
        None \<Rightarrow> 0
      | Some (SystemExit n) \<Rightarrow> n
      | Some _ \<Rightarrow> 1)"

section \<open>Properties and example runs\<close>


text \<open>A \<^verbatim>\<open>package-query\<close> command of \<^verbatim>\<open>get_package_recursive\<close>, by its option.\<close>

definition query :: "string \<Rightarrow> string \<Rightarrow> string list" where
  "query opt n = [''package-query'', opt, ''%n'', n]"

text \<open>The commands among the recorded calls, in order.\<close>

fun run_commands :: "call list \<Rightarrow> string list list" where
  "run_commands [] = []"
| "run_commands (RunCommand c # cs) = c # run_commands cs"
| "run_commands (_ # cs) = run_commands cs"

text \<open>Comparing the versions of any two records of the cache that have the name \<open>x\<close>
  returns.  These are the only comparisons that the lookup of \<open>x\<close> makes.\<close>

definition comparable :: "env \<Rightarrow> globals \<Rightarrow> state \<Rightarrow> string \<Rightarrow> bool" where
  "comparable e g s x \<longleftrightarrow>
     (\<forall>a\<in>set (chached_versions g x s). \<forall>b\<in>set (chached_versions g x s).
        \<exists>r. version_lt e (version (heap s ! a)) (version (heap s ! b)) = Inr r)"

text \<open>A \<^verbatim>\<open>CachedPackage\<close> as its constructor leaves it for a file name that parsed.\<close>

definition archive :: "string \<Rightarrow> string \<Rightarrow> string \<Rightarrow> pkg" where
  "archive n v p = (class_defaults CachedPackage)\<lparr>path := Some p, name := Some n, version := Some v,
     architecture := PStr ''any''\<rparr>"

text \<open>Collaborators that know nothing: no package installed, every command failing, no
  archive readable; the versions compared as \<open>LooseVersion_lt\<close> does.\<close>

definition quiet_env :: env where
  "quiet_env =
     \<lparr>is_installed = (\<lambda>h n. False), get_info_Version = (\<lambda>h n. []),
      subprocess = (\<lambda>h c. (1, [], [])), read_pkginfo = (\<lambda>h p. None),
      version_lt = LooseVersion_lt, recursionlimit = 1000, archive_frames = 0,
      alias_frames = 0, geteuid = 0, get_available = [],
      listdir = (\<lambda>d. []), isfile = (\<lambda>p. True), file_name_match = (\<lambda>p. None)\<rparr>"

definition two_globals :: globals where
  "two_globals = \<lparr>pacman_cache_dir = ''/c'', packages_in_offical_repositories = [], cached_packages = [0, 1]\<rparr>"

text \<open>A map in which an alias and the canonical name hold the same object.\<close>

definition alias_state :: state where
  "alias_state =
     \<lparr>heap = [archive ''real'' ''1.0-1'' ''/c/real-1.0-1-any.pkg.tar.xz''],
      pkg_dict = [''alias'' \<mapsto> 0, ''real'' \<mapsto> 0], calls = []\<rparr>"

text \<open>One archive whose name is also in the index of the official repositories.\<close>

definition one_archive :: state where
  "one_archive =
     \<lparr>heap = [archive ''foo'' ''1.0-1'' ''/c/foo-1.0-1-any.pkg.tar.xz''],
      pkg_dict = Map.empty, calls = []\<rparr>"

definition foo_official :: globals where
  "foo_official = \<lparr>pacman_cache_dir = ''/c'', packages_in_offical_repositories = [''foo''],
     cached_packages = [0]\<rparr>"

text \<open>An archive that is installed in the same version, and collaborators whose commands
  all succeed.\<close>

definition installed_archive :: state where
  "installed_archive =
     \<lparr>heap = [(archive ''foo'' ''1.0-1'' ''/c/foo-1.0-1-any.pkg.tar.xz'')\<lparr>installation_status := 1\<rparr>],
      pkg_dict = [''foo'' \<mapsto> 0], calls = []\<rparr>"

definition willing_env :: env where
  "willing_env = quiet_env\<lparr>subprocess := (\<lambda>h c. (0, [], []))\<rparr>"

text \<open>
  Collaborators for runs over a cache directory \<^verbatim>\<open>/c\<close>.  A file is given by the name,
  version and architecture in its file name and by the content of its \<^verbatim>\<open>.PKGINFO\<close>
  (\<open>None\<close>: the archive cannot be read).  \<^verbatim>\<open>pacman\<close> succeeds; \<^verbatim>\<open>package-query\<close> succeeds
  for the listed pairs of option and name, with the listed output.  Nothing is installed.
\<close>

definition file_name :: "string \<Rightarrow> string \<Rightarrow> string \<Rightarrow> string" where
  "file_name n v a = n @ ''-'' @ v @ ''-'' @ a @ ''.pkg.tar.xz''"

definition answers ::
  "((string \<times> string) \<times> string list) list \<Rightarrow> string list \<Rightarrow> int \<times> string list \<times> string list" where
  "answers qs c =
     (if take 1 c = [''pacman''] then (0, [], [])
      else if take 1 c = [''package-query''] \<and> length c = 4 then
        (case map_of qs (c ! 1, c ! 3) of None \<Rightarrow> (1, [], []) | Some out \<Rightarrow> (0, out, []))
      else (1, [], []))"

definition dir_env :: "(string \<times> string \<times> string \<times> string option) list \<Rightarrow>
    ((string \<times> string) \<times> string list) list \<Rightarrow> env" where
  "dir_env files qs =
     \<lparr>is_installed = (\<lambda>h n. False), get_info_Version = (\<lambda>h n. []),
      subprocess = (\<lambda>h c. answers qs c),
      read_pkginfo = (\<lambda>h p. case p of None \<Rightarrow> None
         | Some q \<Rightarrow> (case find (\<lambda>(n, v, a, d). ''/c/'' @ file_name n v a = q) files of
                        None \<Rightarrow> None | Some (n, v, a, d) \<Rightarrow> d)),
      version_lt = LooseVersion_lt, recursionlimit = 1000, archive_frames = 0,
      alias_frames = 0, geteuid = 0, get_available = [],
      listdir = (\<lambda>d. if d = ''/c'' then map (\<lambda>(n, v, a, d). file_name n v a) files else []),
      isfile = (\<lambda>p. True),
      file_name_match = (\<lambda>p. case find (\<lambda>(n, v, a, d). ''/c/'' @ file_name n v a = p) files of
                        None \<Rightarrow> None | Some (n, v, a, d) \<Rightarrow> Some (n, v, a))\<rparr>"

definition cache_args :: "string list \<Rightarrow> arguments" where
  "cache_args ns = \<lparr>use_cache_only = False, cache_dir = ''/c'', force = False, package_names = ns\<rparr>"

text \<open>\<^verbatim>\<open>a\<close> depends on \<^verbatim>\<open>b\<close>, \<^verbatim>\<open>b\<close> on \<^verbatim>\<open>c\<close>, and \<^verbatim>\<open>c\<close> is nowhere.\<close>

definition chain_env :: env where
  "chain_env = dir_env [(''a'', ''1.0-1'', ''any'', Some ''depend = b''),
                        (''b'', ''1.0-1'', ''any'', Some ''depend = c'')]
                       [((''-QASiif'', ''b''), [''b'']), ((''-QASiif'', ''c''), [''c''])]"

definition chain_globals :: globals where
  "chain_globals = initial_globals chain_env (cache_args [''a''])"

definition chain_state :: state where
  "chain_state = initial_state chain_env (cache_args [''a''])"

text \<open>One archive that cannot be read.\<close>

definition broken_env :: env where
  "broken_env = dir_env [(''foo'', ''1.0-1'', ''any'', None)] []"

text \<open>\<^verbatim>\<open>a\<close> depends on \<^verbatim>\<open>b\<close>, and \<^verbatim>\<open>b\<close> is nowhere.\<close>

definition pair_env :: env where
  "pair_env = dir_env [(''a'', ''1.0-1'', ''any'', Some ''depend = b'')] [((''-QASiif'', ''b''), [''b''])]"

definition pair_globals :: globals where
  "pair_globals = initial_globals pair_env (cache_args [''a''])"

definition pair_state :: state where
  "pair_state = initial_state pair_env (cache_args [''a''])"

text \<open>\<^verbatim>\<open>a\<close> depends on \<^verbatim>\<open>B\<close>, and both are in the cache.\<close>

definition capital_env :: env where
  "capital_env = dir_env [(''a'', ''1.0-1'', ''any'', Some ''depend = B''),
                          (''B'', ''2.0-1'', ''any'', Some ''arch = any'')]
                         [((''-QASiif'', ''B''), [''B''])]"

definition capital_globals :: globals where
  "capital_globals = initial_globals capital_env (cache_args [''a''])"

definition capital_state :: state where
  "capital_state = initial_state capital_env (cache_args [''a''])"

text \<open>The archive \<^verbatim>\<open>px\<close> depends on \<^verbatim>\<open>x\<close>; \<^verbatim>\<open>x\<close> is not in the cache, not installed and
  in no official repository, and the provider query for \<^verbatim>\<open>x\<close> names \<^verbatim>\<open>px\<close>.\<close>

definition loop_env :: env where
  "loop_env = dir_env [(''px'', ''1.0-1'', ''any'', Some ''depend = x'')]
                      [((''-QASiif'', ''x''), [''x'']), ((''-Aiif'', ''x''), [''px''])]"

definition loop_globals :: globals where
  "loop_globals = initial_globals loop_env (cache_args [''x''])"

definition loop_state :: state where
  "loop_state = initial_state loop_env (cache_args [''x''])"

text \<open>The same collaborators with a recursion limit and with the nested calls that the
  archive read and the alias query take.\<close>

definition deep_env :: "nat \<Rightarrow> nat \<Rightarrow> nat \<Rightarrow> env" where
  "deep_env L T P = loop_env\<lparr>recursionlimit := L, archive_frames := T, alias_frames := P\<rparr>"

text \<open>What every state of the walk over that cycle keeps: the one archive, without error,
  and no key \<^verbatim>\<open>x\<close> in the map.\<close>

definition stuck :: "state \<Rightarrow> bool" where
  "stuck s \<longleftrightarrow>
     (\<exists>p. heap s = [p] \<and> cls p = CachedPackage \<and> name p = Some ''px'' \<and> version p = Some ''1.0-1'' \<and>
          path p = Some ''/c/px-1.0-1-any.pkg.tar.xz'' \<and> error_info p = None) \<and>
     pkg_dict s ''x'' = None"

text \<open>\<^verbatim>\<open>n\<close> is installed under the name \<^verbatim>\<open>r\<close>; neither is in the cache or in an official
  repository; the provider query for \<^verbatim>\<open>n\<close> names \<^verbatim>\<open>p\<close>, which is in the cache.\<close>

definition skip_env :: env where
  "skip_env = dir_env [(''p'', ''1.0-1'', ''any'', Some ''arch = any'')]
                      [((''-Qiif'', ''n''), [''r'']), ((''-Aiif'', ''n''), [''p''])]"

definition skip_globals :: globals where
  "skip_globals = initial_globals skip_env (cache_args [''n''])"

definition skip_state :: state where
  "skip_state = initial_state skip_env (cache_args [''n''])"


text \<open>A cache with one version of \<^verbatim>\<open>foo\<close> and one of \<^verbatim>\<open>bar\<close>, which \<^verbatim>\<open>LooseVersion\<close>
  cannot compare with each other.\<close>

definition mixed_env :: env where
  "mixed_env = dir_env [(''foo'', ''1.2-1'', ''any'', Some ''arch = any''),
                        (''bar'', ''1.2.3-1'', ''any'', Some ''arch = any'')] []"

definition mixed_globals :: globals where
  "mixed_globals = initial_globals mixed_env (cache_args [''foo''])"

definition mixed_state :: state where
  "mixed_state = initial_state mixed_env (cache_args [''foo''])"







text \<open>What resolution keeps of the objects that exist: their names, and their repository
  unless it is set to what the index of the official repositories gives for the name.\<close>

definition attributed :: "globals \<Rightarrow> state \<Rightarrow> state \<Rightarrow> bool" where
  "attributed g s s' \<longleftrightarrow>
     length (heap s) \<le> length (heap s') \<and>
     (\<forall>i<length (heap s). name (heap s' ! i) = name (heap s ! i) \<and>
        (repository (heap s' ! i) = repository (heap s ! i) \<or>
         repository (heap s' ! i) =
           Some (if name (heap s ! i) \<in> set (map Some (packages_in_offical_repositories g))
                 then OFFICIAL else LOCAL)))"

text \<open>One archive whose name is also in the index of the official repositories, as
  \<^verbatim>\<open>main\<close> reads them.\<close>

definition indexed_env :: env where
  "indexed_env = (dir_env [(''foo'', ''1.0-1'', ''any'', Some ''arch = any'')] [])\<lparr>get_available := [''foo'']\<rparr>"

definition indexed_globals :: globals where
  "indexed_globals = initial_globals indexed_env (cache_args [''foo''])"

definition indexed_state :: state where
  "indexed_state = initial_state indexed_env (cache_args [''foo''])"

text \<open>The tree of the package \<open>n\<close>, followed through the map for at most \<open>k\<close> levels,
  has only objects of the cache with a name, a version and a path.\<close>

primrec tree_ok :: "nat \<Rightarrow> state \<Rightarrow> string \<Rightarrow> bool" where
  "tree_ok 0 s n = False"
| "tree_ok (Suc k) s n =
     (case pkg_dict s n of
        None \<Rightarrow> False
      | Some a \<Rightarrow>
          a < length (heap s) \<and> cls (heap s ! a) = CachedPackage \<and> name (heap s ! a) \<noteq> None \<and>
          version (heap s ! a) \<noteq> None \<and> path (heap s ! a) \<noteq> None \<and>
          list_all (tree_ok k s) (dependencies (heap s ! a)))"

text \<open>What the installation keeps: the map, and the class, name, version, path and
  dependencies of every object.\<close>

definition same_shape :: "state \<Rightarrow> state \<Rightarrow> bool" where
  "same_shape s s' \<longleftrightarrow>
     pkg_dict s' = pkg_dict s \<and> length (heap s') = length (heap s) \<and>
     (\<forall>i<length (heap s). cls (heap s' ! i) = cls (heap s ! i) \<and> name (heap s' ! i) = name (heap s ! i) \<and>
        version (heap s' ! i) = version (heap s ! i) \<and> path (heap s' ! i) = path (heap s ! i) \<and>
        dependencies (heap s' ! i) = dependencies (heap s ! i))"

text \<open>\<^verbatim>\<open>a\<close> depends on \<^verbatim>\<open>b\<close>, whose archive cannot be read.\<close>

definition rotten_env :: env where
  "rotten_env = dir_env [(''a'', ''1.0-1'', ''any'', Some ''depend = b''),
                         (''b'', ''1.0-1'', ''any'', None)]
                        [((''-QASiif'', ''b''), [''b''])]"

section \<open>The cache index\<close>





text \<open>The comparison of \<^verbatim>\<open>LooseVersion\<close>: where it returns it is irreflexive and
  transitive, and it raises nothing but \<^verbatim>\<open>TypeError\<close>.\<close>

lemma list_lt_same: "list_lt xs xs = Inr False"
  by (induction xs) simp_all

lemma LooseVersion_lt_same: "LooseVersion_lt (Some v) (Some v) = Inr False"
  by (simp add: LooseVersion_lt_def list_lt_same)









lemma best_version_mem: "best_version e h p cs = Inr a \<Longrightarrow> a \<in> set (p # cs)"
proof (induction cs arbitrary: p)
  case Nil
  then show ?case by simp
next
  case (Cons c cs)
  then obtain b where "best_version e h (if b then c else p) cs = Inr a"
    by (auto split: sum.splits)
  then have "a \<in> set ((if b then c else p) # cs)" by (rule Cons.IH)
  then show ?case by (auto split: if_splits)
qed

lemma get_cached_package_name:
  assumes h: "get_cached_package e g n s = Inr (Some a, s')"
  shows "a \<in> set (cached_packages g) \<and> name (heap s ! a) = Some n"
proof -
  obtain c cs where cv: "chached_versions g n s = c # cs"
    using h by (cases "chached_versions g n s") (auto simp: get_cached_package_def)
  with h have "best_version e (heap s) c (c # cs) = Inr a"
    by (auto simp: get_cached_package_def split: sum.splits)
  then have "a \<in> set (c # c # cs)" by (rule best_version_mem)
  then have "a \<in> set (chached_versions g n s)" using cv by simp
  then show ?thesis by (simp add: chached_versions_def)
qed






section \<open>Resolution\<close>

text \<open>
  C5: a call of \<^verbatim>\<open>get_package_recursive\<close> for a name that is a key of the map, at any
  depth that allows the call, returns the state as it was: the map and its objects are the
  same and no call to a collaborator has been added, so an alias and the canonical name
  still hold the same object.
\<close>

theorem get_package_recursive_known:
  "pkg_dict s n \<noteq> None \<Longrightarrow> get_package_recursive (Suc depth) e g n s = Inr s"
  by simp

theorem get_package_recursive_known_witness:
  "pkg_dict alias_state ''alias'' \<noteq> None \<and>
   get_package_recursive (Suc 0) quiet_env two_globals ''alias'' alias_state = Inr alias_state \<and>
   pkg_dict alias_state ''alias'' = pkg_dict alias_state ''real''"
proof -
  have d: "pkg_dict alias_state ''alias'' \<noteq> None" by (simp add: alias_state_def)
  show ?thesis
    using d get_package_recursive_known[OF d, of 0 quiet_env two_globals]
    by (simp add: alias_state_def)
qed

lemma run_commands_append: "run_commands (xs @ ys) = run_commands xs @ run_commands ys"
  by (induction xs rule: run_commands.induct) simp_all

lemma get_installation_status_frame:
  "pkg_dict (get_installation_status e a s) = pkg_dict s"
  "length (heap (get_installation_status e a s)) = length (heap s)"
  "run_commands (calls (get_installation_status e a s)) = run_commands (calls s)"
  by (simp_all add: get_installation_status_def update_obj_def Let_def run_commands_append)

lemma status_update_keeps:
  "cls ((xs[a := (xs ! a)\<lparr>installation_status := k\<rparr>]) ! b) = cls (xs ! b)"
  "name ((xs[a := (xs ! a)\<lparr>installation_status := k\<rparr>]) ! b) = name (xs ! b)"
  "version ((xs[a := (xs ! a)\<lparr>installation_status := k\<rparr>]) ! b) = version (xs ! b)"
  "repository ((xs[a := (xs ! a)\<lparr>installation_status := k\<rparr>]) ! b) = repository (xs ! b)"
  "dependencies ((xs[a := (xs ! a)\<lparr>installation_status := k\<rparr>]) ! b) = dependencies (xs ! b)"
  "error_info ((xs[a := (xs ! a)\<lparr>installation_status := k\<rparr>]) ! b) = error_info (xs ! b)"
proof -
  have "xs[a := (xs ! a)\<lparr>installation_status := k\<rparr>] ! b =
          (if a < length xs \<and> a = b then (xs ! b)\<lparr>installation_status := k\<rparr> else xs ! b)"
    by (cases "a < length xs") (auto simp: nth_list_update list_update_beyond not_less)
  then show
    "cls ((xs[a := (xs ! a)\<lparr>installation_status := k\<rparr>]) ! b) = cls (xs ! b)"
    "name ((xs[a := (xs ! a)\<lparr>installation_status := k\<rparr>]) ! b) = name (xs ! b)"
    "version ((xs[a := (xs ! a)\<lparr>installation_status := k\<rparr>]) ! b) = version (xs ! b)"
    "repository ((xs[a := (xs ! a)\<lparr>installation_status := k\<rparr>]) ! b) = repository (xs ! b)"
    "dependencies ((xs[a := (xs ! a)\<lparr>installation_status := k\<rparr>]) ! b) = dependencies (xs ! b)"
    "error_info ((xs[a := (xs ! a)\<lparr>installation_status := k\<rparr>]) ! b) = error_info (xs ! b)"
    by simp_all
qed

lemma get_installation_status_fields:
  "cls (heap (get_installation_status e a s) ! b) = cls (heap s ! b)"
  "name (heap (get_installation_status e a s) ! b) = name (heap s ! b)"
  "version (heap (get_installation_status e a s) ! b) = version (heap s ! b)"
  "repository (heap (get_installation_status e a s) ! b) = repository (heap s ! b)"
  "dependencies (heap (get_installation_status e a s) ! b) = dependencies (heap s ! b)"
  "error_info (heap (get_installation_status e a s) ! b) = error_info (heap s ! b)"
  by (simp_all add: get_installation_status_def update_obj_def Let_def status_update_keeps)

lemma get_cached_package_miss:
  "chached_versions g x s = [] \<Longrightarrow> get_cached_package e g x s = Inr (None, s)"
  by (simp add: get_cached_package_def)

lemma best_version_returns:
  "(\<forall>a\<in>set (p # cs). \<forall>b\<in>set (p # cs). \<exists>r. version_lt e (version (h ! a)) (version (h ! b)) = Inr r)
   \<Longrightarrow> \<exists>a. best_version e h p cs = Inr a"
proof (induction cs arbitrary: p)
  case Nil
  then show ?case by simp
next
  case (Cons c cs)
  from Cons.prems obtain r where r: "version_lt e (version (h ! p)) (version (h ! c)) = Inr r"
    by (meson list.set_intros)
  have "\<forall>a\<in>set ((if r then c else p) # cs). \<forall>b\<in>set ((if r then c else p) # cs).
          \<exists>r. version_lt e (version (h ! a)) (version (h ! b)) = Inr r"
    using Cons.prems by auto
  from Cons.IH[OF this] show ?case using r by simp
qed

lemma get_cached_package_hit:
  assumes cmp: "comparable e g s x" and hit: "chached_versions g x s \<noteq> []"
  shows "\<exists>a. get_cached_package e g x s = Inr (Some a, get_installation_status e a s) \<and>
             a \<in> set (cached_packages g) \<and> name (heap s ! a) = Some x"
proof -
  obtain c cs where cv: "chached_versions g x s = c # cs"
    using hit by (cases "chached_versions g x s") auto
  have mem: "set (c # cs) = {a \<in> set (cached_packages g). name (heap s ! a) = Some x}"
    unfolding cv[symmetric] chached_versions_def by simp
  have "\<forall>a\<in>set (c # c # cs). \<forall>b\<in>set (c # c # cs).
          \<exists>r. version_lt e (version (heap s ! a)) (version (heap s ! b)) = Inr r"
  proof (intro ballI)
    fix a b
    assume "a \<in> set (c # c # cs)" "b \<in> set (c # c # cs)"
    then have "a \<in> set (c # cs)" "b \<in> set (c # cs)" by simp_all
    then show "\<exists>r. version_lt e (version (heap s ! a)) (version (heap s ! b)) = Inr r"
      using cmp unfolding comparable_def cv by blast
  qed
  from best_version_returns[OF this] obtain a where a: "best_version e (heap s) c (c # cs) = Inr a"
    by blast
  then have g: "get_cached_package e g x s = Inr (Some a, get_installation_status e a s)"
    using cv by (simp add: get_cached_package_def)
  from get_cached_package_name[OF g] g show ?thesis by blast
qed

lemma calls_update_frame:
  "chached_versions g x (s\<lparr>calls := c\<rparr>) = chached_versions g x s"
  "comparable e g (s\<lparr>calls := c\<rparr>) x = comparable e g s x"
  by (simp_all add: chached_versions_def comparable_def)

lemma first_cached_miss:
  "find (\<lambda>x. chached_versions g x s \<noteq> []) out = None \<Longrightarrow> first_cached e g out s = Inr (None, s)"
  by (induction out) (auto simp: get_cached_package_miss split: if_splits)

lemma first_cached_hit:
  assumes cmp: "comparable e g s x"
  shows "find (\<lambda>x. chached_versions g x s \<noteq> []) out = Some x \<Longrightarrow>
     \<exists>a. first_cached e g out s = Inr (Some a, get_installation_status e a s) \<and>
         a \<in> set (cached_packages g) \<and> name (heap s ! a) = Some x"
proof (induction out)
  case Nil
  then show ?case by simp
next
  case (Cons y out)
  show ?case
  proof (cases "chached_versions g y s = []")
    case True
    then show ?thesis using Cons by (simp add: get_cached_package_miss)
  next
    case False
    then have "x = y" using Cons.prems by simp
    with get_cached_package_hit[of e g s y] cmp False show ?thesis by auto
  qed
qed

lemma loop_env_fields:
  "subprocess loop_env h [''package-query'', ''-Qiif'', ''%n'', ''x''] = (1, [], [])"
  "subprocess loop_env h [''package-query'', ''-Siif'', ''%n'', ''x''] = (1, [], [])"
  "subprocess loop_env h [''package-query'', ''-Aiif'', ''%n'', ''x''] = (0, [''px''], [])"
  "subprocess loop_env h [''package-query'', ''-QASiif'', ''%n'', ''x''] = (0, [''x''], [])"
  "read_pkginfo loop_env h (Some ''/c/px-1.0-1-any.pkg.tar.xz'') = Some ''depend = x''"
  "is_installed loop_env h n = False"
  "version_lt loop_env = LooseVersion_lt"
  by (simp_all add: loop_env_def dir_env_def answers_def file_name_def)

lemma loop_globals_fields:
  "cached_packages loop_globals = [0]"
  "packages_in_offical_repositories loop_globals = []"
  by code_simp+

lemma loop_parse:
  "parse_from_string ''depend'' ''depend = x'' = PStr ''x''"
  "strip_constraint ''x'' = ''x''"
  by code_simp+

lemma deep_env_fields:
  "subprocess (deep_env L T P) h [''package-query'', ''-Qiif'', ''%n'', ''x''] = (1, [], [])"
  "subprocess (deep_env L T P) h [''package-query'', ''-Siif'', ''%n'', ''x''] = (1, [], [])"
  "subprocess (deep_env L T P) h [''package-query'', ''-Aiif'', ''%n'', ''x''] = (0, [''px''], [])"
  "subprocess (deep_env L T P) h [''package-query'', ''-QASiif'', ''%n'', ''x''] = (0, [''x''], [])"
  "read_pkginfo (deep_env L T P) h (Some ''/c/px-1.0-1-any.pkg.tar.xz'') = Some ''depend = x''"
  "is_installed (deep_env L T P) h n = False"
  "version_lt (deep_env L T P) = LooseVersion_lt"
  "archive_frames (deep_env L T P) = T"
  "alias_frames (deep_env L T P) = P"
  "recursionlimit (deep_env L T P) = L"
  by (simp_all add: deep_env_def loop_env_fields)

lemma deep_env_start:
  "initial_globals (deep_env L T P) (cache_args [''x'']) = loop_globals"
  "initial_state (deep_env L T P) (cache_args [''x'']) = loop_state"
  by (simp_all add: loop_globals_def loop_state_def initial_globals_def initial_state_def scan_cache_def
        CachedPackage_init_def deep_env_def)

lemma loop_state_stuck: "stuck loop_state"
proof -
  have "heap loop_state = [archive ''px'' ''1.0-1'' ''/c/px-1.0-1-any.pkg.tar.xz'']"
    by code_simp
  then show ?thesis
    by (simp add: stuck_def archive_def class_defaults_def loop_state_def initial_state_def)
qed

lemma stuck_resolve:
  assumes "stuck s"
  shows "resolve (deep_env L T P) loop_globals ''x'' s =
           Inr (Some 0, get_installation_status (deep_env L T P) 0
                  (s\<lparr>calls := calls s @ [RunCommand [''package-query'', ''-Qiif'', ''%n'', ''x''],
                                           RunCommand [''package-query'', ''-Siif'', ''%n'', ''x''],
                                           RunCommand [''package-query'', ''-Aiif'', ''%n'', ''x'']]\<rparr>))"
proof -
  from assms obtain p where p: "heap s = [p]" "name p = Some ''px''" "version p = Some ''1.0-1''"
    unfolding stuck_def by blast
  have miss: "\<And>c. get_cached_package (deep_env L T P) loop_globals ''x'' (s\<lparr>calls := c\<rparr>) = Inr (None, s\<lparr>calls := c\<rparr>)"
    by (simp add: get_cached_package_def chached_versions_def loop_globals_fields p)
  have miss0: "get_cached_package (deep_env L T P) loop_globals ''x'' s = Inr (None, s)"
    using miss[of "calls s"] by simp
  have hit: "\<And>c. get_cached_package (deep_env L T P) loop_globals ''px'' (s\<lparr>calls := c\<rparr>)
                 = Inr (Some 0, get_installation_status (deep_env L T P) 0 (s\<lparr>calls := c\<rparr>))"
    by (simp add: get_cached_package_def chached_versions_def loop_globals_fields p deep_env_fields
          LooseVersion_lt_same)
  show ?thesis
    by (simp add: resolve_def miss0 run_command_def deep_env_fields official_or_def hit)
qed

lemma stuck_walk:
  "stuck s \<Longrightarrow>
   (case get_package_recursive depth (deep_env L T P) loop_globals ''x'' s of
      Inl x \<Rightarrow> x = RecursionError \<and> (depth = 0 \<or> T = 0 \<and> P = 0)
    | Inr s' \<Rightarrow> (0 < T \<or> 0 < P) \<and> pkg_dict s' ''x'' = None \<and>
        error_info (heap s' ! 0) = Some (parse_error (heap s' ! 0)) \<and>
        depth + length (calls s) \<le> length (calls s') + max T P)"
proof (induction depth arbitrary: s)
  case 0
  then show ?case by simp
next
  case (Suc d)
  from Suc.prems obtain p where p: "heap s = [p]" "cls p = CachedPackage" "name p = Some ''px''"
    "version p = Some ''1.0-1''" "path p = Some ''/c/px-1.0-1-any.pkg.tar.xz''" "error_info p = None"
    and x: "pkg_dict s ''x'' = None"
    unfolding stuck_def by blast
  let ?e = "deep_env L T P"
  let ?s5 = "get_installation_status ?e 0
                  (s\<lparr>calls := calls s @ [RunCommand [''package-query'', ''-Qiif'', ''%n'', ''x''],
                                           RunCommand [''package-query'', ''-Siif'', ''%n'', ''x''],
                                           RunCommand [''package-query'', ''-Aiif'', ''%n'', ''x'']]\<rparr>)"
  let ?s6 = "determine_repository loop_globals 0 ?s5"
  let ?s7 = "determine_package_info ?e d 0 ?s6"
  let ?q = "p\<lparr>installation_status := 0, repository := Some LOCAL\<rparr>"
  have s5: "heap ?s5 = [p\<lparr>installation_status := 0\<rparr>]" "pkg_dict ?s5 = pkg_dict s"
    "length (calls ?s5) = length (calls s) + 4"
    by (simp_all add: get_installation_status_def deep_env_fields update_obj_def p Let_def)
  have s6: "heap ?s6 = [?q]" "pkg_dict ?s6 = pkg_dict s" "calls ?s6 = calls ?s5"
    by (simp_all add: determine_repository_def loop_globals_fields update_obj_def s5 p)
  have step: "get_package_recursive (Suc d) ?e loop_globals ''x'' s =
          (if error_info (heap ?s7 ! 0) \<noteq> None then Inr ?s7
           else if repository (heap ?s7 ! 0) = Some LOCAL
             then for_each (get_package_recursive d ?e loop_globals) (dependencies (heap ?s7 ! 0)) ?s7
             else Inr ?s7)"
    using x by (simp add: stuck_resolve[OF Suc.prems] Let_def)
  have pe: "parse_error (?q\<lparr>error_info := Some (parse_error ?q)\<rparr>) = parse_error ?q"
    by (simp add: parse_error_def)
  show ?case
  proof (cases "d < T")
    case True
    have s7: "heap ?s7 = [?q\<lparr>error_info := Some (parse_error ?q)\<rparr>]" "pkg_dict ?s7 = pkg_dict s"
      "calls ?s7 = calls ?s5"
      using True by (simp_all add: determine_package_info_def s6 deep_env_fields update_obj_def)
    have "get_package_recursive (Suc d) ?e loop_globals ''x'' s = Inr ?s7"
      unfolding step by (simp add: s7)
    then show ?thesis using True x by (simp add: s7 s5 pe)
  next
    case nT: False
    show ?thesis
    proof (cases "d < P")
      case True
      have s7: "heap ?s7 = [?q\<lparr>error_info := Some (parse_error ?q)\<rparr>]" "pkg_dict ?s7 = pkg_dict s"
        "length (calls ?s7) = length (calls s) + 5"
        using True nT
        by (simp_all add: determine_package_info_def s6 s5 p deep_env_fields loop_parse update_obj_def Let_def)
      have "get_package_recursive (Suc d) ?e loop_globals ''x'' s = Inr ?s7"
        unfolding step by (simp add: s7)
      then show ?thesis using True x by (simp add: s7 pe)
    next
      case nP: False
      have s7: "heap ?s7 = [?q\<lparr>dependencies := [''x''],
                            architecture := parse_from_string ''arch'' ''depend = x'',
                            license := parse_from_string ''license'' ''depend = x''\<rparr>]"
        "pkg_dict ?s7 = pkg_dict s" "length (calls ?s7) = length (calls s) + 6"
        using nT nP
        by (simp_all add: determine_package_info_def s6 s5 p deep_env_fields loop_parse update_obj_def
              run_command_def Let_def)
      have st: "stuck ?s7" by (simp add: stuck_def s7 p x)
      have rec: "get_package_recursive (Suc d) ?e loop_globals ''x'' s =
            (case get_package_recursive d ?e loop_globals ''x'' ?s7 of
               Inl x \<Rightarrow> Inl x | Inr s1 \<Rightarrow> Inr s1)"
        unfolding step by (simp add: s7 p cong: sum.case_cong)
      from Suc.IH[OF st] show ?thesis
        unfolding rec using nT nP by (auto simp: s7 split: sum.splits)
    qed
  qed
qed

text \<open>
  C6, at the input where the code leaves the claim: \<^verbatim>\<open>x\<close> is resolved through the
  provider query to the cached \<^verbatim>\<open>px\<close>, which is not stored in the map under \<^verbatim>\<open>x\<close>, and
  \<^verbatim>\<open>px\<close> depends on \<^verbatim>\<open>x\<close>.  For every recursion limit \<open>L\<close>, and whatever number of
  nested calls the archive read (\<open>T\<close>) and the alias query (\<open>P\<close>) take, the walk nests
  until the limit is reached.  It ends in an escaping \<^verbatim>\<open>RecursionError\<close> only when
  the limit is 0 or nothing is needed inside the \<^verbatim>\<open>try\<close> block; otherwise it returns
  because the \<^verbatim>\<open>try\<close> block of \<^verbatim>\<open>determine_package_info\<close> caught the \<^verbatim>\<open>RecursionError\<close>:
  \<^verbatim>\<open>px\<close> then carries the error of the \<^verbatim>\<open>except\<close> branch, at least \<open>L - max T P\<close> calls
  to collaborators were made, \<^verbatim>\<open>x\<close> is still no key, and installation raises
  \<^verbatim>\<open>KeyError\<close>.  Either way no report is printed and the exit status is 1.
\<close>

theorem provider_cycle_reaches_limit:
  "\<forall>L T P.
     (case get_package_recursive L (deep_env L T P) loop_globals ''x'' loop_state of
        Inl x \<Rightarrow> x = RecursionError \<and> (L = 0 \<or> T = 0 \<and> P = 0)
      | Inr s' \<Rightarrow> (0 < T \<or> 0 < P) \<and> pkg_dict s' ''x'' = None \<and>
          error_info (heap s' ! 0) = Some (parse_error (heap s' ! 0)) \<and>
          L \<le> length (calls s') + max T P \<and>
          install_package_recursive L (deep_env L T P) loop_globals False False ''x'' s'
            = Inl (KeyError ''x'')) \<and>
     fst (main (deep_env L T P) (cache_args [''x''])) = [] \<and>
     exit_status (deep_env L T P) (cache_args [''x'']) = 1"
proof (intro allI)
  fix L T P
  let ?e = "deep_env L T P"
  let ?r = "get_package_recursive L ?e loop_globals ''x'' loop_state"
  have w: "case ?r of
      Inl x \<Rightarrow> x = RecursionError \<and> (L = 0 \<or> T = 0 \<and> P = 0)
    | Inr s' \<Rightarrow> (0 < T \<or> 0 < P) \<and> pkg_dict s' ''x'' = None \<and>
        error_info (heap s' ! 0) = Some (parse_error (heap s' ! 0)) \<and>
        L + length (calls loop_state) \<le> length (calls s') + max T P"
    by (rule stuck_walk[OF loop_state_stuck])
  have l0: "length (calls loop_state) = 0" by (simp add: loop_state_def initial_state_def)
  have ge: "geteuid ?e = 0" by (simp add: deep_env_def loop_env_def dir_env_def)
  have lw: "map lower (package_names (cache_args [''x''])) = [''x'']" by code_simp
  have ar: "use_cache_only (cache_args [''x'']) = False" "force (cache_args [''x'']) = False"
    by (simp_all add: cache_args_def)
  show "(case ?r of
        Inl x \<Rightarrow> x = RecursionError \<and> (L = 0 \<or> T = 0 \<and> P = 0)
      | Inr s' \<Rightarrow> (0 < T \<or> 0 < P) \<and> pkg_dict s' ''x'' = None \<and>
          error_info (heap s' ! 0) = Some (parse_error (heap s' ! 0)) \<and>
          L \<le> length (calls s') + max T P \<and>
          install_package_recursive L ?e loop_globals False False ''x'' s' = Inl (KeyError ''x'')) \<and>
     fst (main ?e (cache_args [''x''])) = [] \<and>
     exit_status ?e (cache_args [''x'']) = 1"
  proof (cases ?r)
    case (Inl x)
    then have "x = RecursionError" using w by simp
    then have m: "main ?e (cache_args [''x'']) = ([], Some RecursionError)"
      using Inl
      by (simp add: main_def deep_env_fields deep_env_start ge lw ar Let_def)
    show ?thesis using w Inl m by (simp add: exit_status_def)
  next
    case (Inr s')
    then have k: "pkg_dict s' ''x'' = None" using w by simp
    have "L \<noteq> 0" using Inr by (cases L) simp_all
    then obtain d where d: "L = Suc d" by (cases L) simp_all
    have i: "install_package_recursive L ?e loop_globals False False ''x'' s' = Inl (KeyError ''x'')"
      using k d by simp
    have m: "main ?e (cache_args [''x'']) = ([], Some (KeyError ''x''))"
      using Inr i
      by (simp add: main_def deep_env_fields deep_env_start ge lw ar Let_def)
    show ?thesis using w Inr i m l0 by (simp add: exit_status_def)
  qed
qed

lemma resolve_exact:
  assumes cmp: "comparable e g s n" and hit: "chached_versions g n s \<noteq> []"
  shows "\<exists>a s'. resolve e g n s = Inr (Some a, s') \<and> a \<in> set (cached_packages g) \<and>
           name (heap s ! a) = Some n \<and> pkg_dict s' = (pkg_dict s)(n \<mapsto> a) \<and>
           run_commands (calls s') = run_commands (calls s)"
proof -
  from get_cached_package_hit[OF cmp hit] obtain a where
    a: "get_cached_package e g n s = Inr (Some a, get_installation_status e a s)"
      "a \<in> set (cached_packages g)" "name (heap s ! a) = Some n"
    by blast
  have "resolve e g n s = Inr (Some a, (get_installation_status e a s)
          \<lparr>pkg_dict := (pkg_dict (get_installation_status e a s))(n \<mapsto> a)\<rparr>)"
    by (simp add: resolve_def a(1))
  then show ?thesis using a(2,3) by (simp add: get_installation_status_frame)
qed

lemma resolve_installed:
  assumes cmp: "comparable e g s r" and miss: "chached_versions g n s = []"
    and q: "subprocess e (calls s) (query ''-Qiif'' n) = (0, r # rest, errQ)"
    and hit: "chached_versions g r s \<noteq> []"
  shows "\<exists>a s'. resolve e g n s = Inr (Some a, s') \<and> a \<in> set (cached_packages g) \<and>
           name (heap s ! a) = Some r \<and> pkg_dict s' = (pkg_dict s)(n \<mapsto> a, r \<mapsto> a) \<and>
           run_commands (calls s') = run_commands (calls s) @ [query ''-Qiif'' n]"
proof -
  let ?s2 = "s\<lparr>calls := calls s @ [RunCommand (query ''-Qiif'' n)]\<rparr>"
  have cmp2: "comparable e g ?s2 r" and hit2: "chached_versions g r ?s2 \<noteq> []"
    using cmp hit by (simp_all add: calls_update_frame)
  from get_cached_package_hit[OF cmp2 hit2] obtain a where
    a: "get_cached_package e g r ?s2 = Inr (Some a, get_installation_status e a ?s2)"
      "a \<in> set (cached_packages g)" "name (heap ?s2 ! a) = Some r"
    by blast
  have "resolve e g n s = Inr (Some a, (get_installation_status e a ?s2)
          \<lparr>pkg_dict := (pkg_dict (get_installation_status e a ?s2))(n \<mapsto> a, r \<mapsto> a)\<rparr>)"
    using q a(1) by (simp add: resolve_def get_cached_package_miss[OF miss] run_command_def query_def)
  then show ?thesis using a(2,3)
    by (simp add: get_installation_status_frame run_commands_append)
qed

lemma official_or_found:
  assumes o: "subprocess e (calls t) (query ''-Siif'' n) = (0, outS, errS)" and ne: "outS \<noteq> []"
  shows "\<exists>s'. official_or e n t other = Inr (None, s') \<and>
           length (heap s') = Suc (length (heap t)) \<and>
           cls (heap s' ! length (heap t)) = OfficialPackage \<and>
           name (heap s' ! length (heap t)) = Some (last outS) \<and>
           repository (heap s' ! length (heap t)) = Some OFFICIAL \<and>
           dependencies (heap s' ! length (heap t)) = [] \<and>
           error_info (heap s' ! length (heap t)) = None \<and>
           pkg_dict s' = (pkg_dict t)(n \<mapsto> length (heap t), last outS \<mapsto> length (heap t)) \<and>
           run_commands (calls s') = run_commands (calls t) @ [query ''-Siif'' n]"
  using o ne
  by (simp add: official_or_def run_command_def query_def OfficialPackage_init_def new_obj_def
        get_installation_status_frame get_installation_status_fields class_defaults_def
        run_commands_append Let_def)

lemma unavailable_node:
  "heap (unavailable n t) ! length (heap t) =
     (class_defaults PackageBase)\<lparr>name := Some n, error_info := Some (CachedPackageUnavailable
        (''No cached package available for '' @ [CHR 0x27] @ n @ [CHR 0x27]))\<rparr>"
  "length (heap (unavailable n t)) = Suc (length (heap t))"
  "pkg_dict (unavailable n t) = (pkg_dict t)(n \<mapsto> length (heap t))"
  "calls (unavailable n t) = calls t"
  by (simp_all add: unavailable_def new_obj_def)

text \<open>
  C7, as the code has it.  For a name \<open>n\<close>, with the answers of the three queries named
  (each asked after the ones before it), the lines of \<^verbatim>\<open>get_package_recursive\<close> that find
  the node do this, the first case that applies.  Where a record of the cache is found by a
  name, the case asks that the versions of the records of that name can be compared with
  each other; nothing is asked of the records of other names, which are never compared.
  \<^enum> \<open>n\<close> has a record in the cache: that record, stored under \<open>n\<close>; no command is run;
  \<^enum> the installed-state query succeeds and its first output line has a record in the cache:
    that record, stored under both names; only that query is run;
  \<^enum> the official-repository query succeeds: a new \<^verbatim>\<open>OfficialPackage\<close> named by its last
    output line, stored under both names, and the function returns without walking
    dependencies; two queries are run;
  \<^enum> only when the installed-state query failed: the provider query succeeds and some
    output line has a record in the cache: the record of the first such line; three
    queries are run;
  \<^enum> otherwise a new \<^verbatim>\<open>PackageBase\<close> with \<^verbatim>\<open>CachedPackageUnavailable\<close>, stored under
    \<open>n\<close>, and the function returns.  After a successful installed-state query this case
    follows the failed official-repository query at once: the provider query is not run.
\<close>

theorem resolve_precedence:
  assumes q: "subprocess e (calls s) (query ''-Qiif'' n) = (rcQ, outQ, errQ)"
    and o: "subprocess e (calls s @ [RunCommand (query ''-Qiif'' n)]) (query ''-Siif'' n) = (rcS, outS, errS)"
    and p: "subprocess e (calls s @ [RunCommand (query ''-Qiif'' n), RunCommand (query ''-Siif'' n)])
              (query ''-Aiif'' n) = (rcA, outA, errA)"
  shows
   "(chached_versions g n s \<noteq> [] \<and> comparable e g s n \<longrightarrow>
       (\<exists>a s'. resolve e g n s = Inr (Some a, s') \<and> a \<in> set (cached_packages g) \<and>
          name (heap s ! a) = Some n \<and> pkg_dict s' = (pkg_dict s)(n \<mapsto> a) \<and>
          run_commands (calls s') = run_commands (calls s))) \<and>
    (chached_versions g n s = [] \<and> rcQ = 0 \<and> outQ \<noteq> [] \<and> chached_versions g (hd outQ) s \<noteq> [] \<and>
     comparable e g s (hd outQ) \<longrightarrow>
       (\<exists>a s'. resolve e g n s = Inr (Some a, s') \<and> a \<in> set (cached_packages g) \<and>
          name (heap s ! a) = Some (hd outQ) \<and> pkg_dict s' = (pkg_dict s)(n \<mapsto> a, hd outQ \<mapsto> a) \<and>
          run_commands (calls s') = run_commands (calls s) @ [query ''-Qiif'' n])) \<and>
    (chached_versions g n s = [] \<and> (rcQ = 0 \<longrightarrow> outQ \<noteq> [] \<and> chached_versions g (hd outQ) s = []) \<and>
     rcS = 0 \<and> outS \<noteq> [] \<longrightarrow>
       (\<exists>s'. resolve e g n s = Inr (None, s') \<and>
          length (heap s') = Suc (length (heap s)) \<and>
          cls (heap s' ! length (heap s)) = OfficialPackage \<and>
          name (heap s' ! length (heap s)) = Some (last outS) \<and>
          repository (heap s' ! length (heap s)) = Some OFFICIAL \<and>
          dependencies (heap s' ! length (heap s)) = [] \<and>
          error_info (heap s' ! length (heap s)) = None \<and>
          pkg_dict s' = (pkg_dict s)(n \<mapsto> length (heap s), last outS \<mapsto> length (heap s)) \<and>
          run_commands (calls s') = run_commands (calls s) @ [query ''-Qiif'' n, query ''-Siif'' n] \<and>
          (pkg_dict s n = None \<longrightarrow> get_package_recursive (Suc depth) e g n s = Inr s'))) \<and>
    (chached_versions g n s = [] \<and> rcQ \<noteq> 0 \<and> rcS \<noteq> 0 \<and> rcA = 0 \<and>
     find (\<lambda>x. chached_versions g x s \<noteq> []) outA = Some x \<and> comparable e g s x \<longrightarrow>
       (\<exists>a s'. resolve e g n s = Inr (Some a, s') \<and> a \<in> set (cached_packages g) \<and>
          name (heap s ! a) = Some x \<and>
          run_commands (calls s') = run_commands (calls s)
             @ [query ''-Qiif'' n, query ''-Siif'' n, query ''-Aiif'' n])) \<and>
    (chached_versions g n s = [] \<and> rcS \<noteq> 0 \<and>
     (rcQ = 0 \<and> outQ \<noteq> [] \<and> chached_versions g (hd outQ) s = [] \<or>
      rcQ \<noteq> 0 \<and> (rcA \<noteq> 0 \<or> find (\<lambda>x. chached_versions g x s \<noteq> []) outA = None)) \<longrightarrow>
       (\<exists>s'. resolve e g n s = Inr (None, s') \<and>
          length (heap s') = Suc (length (heap s)) \<and>
          heap s' ! length (heap s) =
            (class_defaults PackageBase)\<lparr>name := Some n, error_info := Some (CachedPackageUnavailable
               (''No cached package available for '' @ [CHR 0x27] @ n @ [CHR 0x27]))\<rparr> \<and>
          pkg_dict s' = (pkg_dict s)(n \<mapsto> length (heap s)) \<and>
          run_commands (calls s') = run_commands (calls s)
             @ (if rcQ = 0 then [query ''-Qiif'' n, query ''-Siif'' n]
                else [query ''-Qiif'' n, query ''-Siif'' n, query ''-Aiif'' n]) \<and>
          (pkg_dict s n = None \<longrightarrow> get_package_recursive (Suc depth) e g n s = Inr s')))"
proof (intro conjI impI)
  assume "chached_versions g n s \<noteq> [] \<and> comparable e g s n"
  then show "\<exists>a s'. resolve e g n s = Inr (Some a, s') \<and> a \<in> set (cached_packages g) \<and>
          name (heap s ! a) = Some n \<and> pkg_dict s' = (pkg_dict s)(n \<mapsto> a) \<and>
          run_commands (calls s') = run_commands (calls s)"
    using resolve_exact[of e g s n] by blast
next
  assume h: "chached_versions g n s = [] \<and> rcQ = 0 \<and> outQ \<noteq> [] \<and> chached_versions g (hd outQ) s \<noteq> [] \<and>
     comparable e g s (hd outQ)"
  then obtain r rest where out: "outQ = r # rest" by (cases outQ) auto
  have q': "subprocess e (calls s) (query ''-Qiif'' n) = (0, r # rest, errQ)"
    using q h out by simp
  show "\<exists>a s'. resolve e g n s = Inr (Some a, s') \<and> a \<in> set (cached_packages g) \<and>
          name (heap s ! a) = Some (hd outQ) \<and> pkg_dict s' = (pkg_dict s)(n \<mapsto> a, hd outQ \<mapsto> a) \<and>
          run_commands (calls s') = run_commands (calls s) @ [query ''-Qiif'' n]"
    using resolve_installed[of e g s r n rest errQ] q' h out by simp
next
  assume h: "chached_versions g n s = [] \<and> (rcQ = 0 \<longrightarrow> outQ \<noteq> [] \<and> chached_versions g (hd outQ) s = []) \<and>
     rcS = 0 \<and> outS \<noteq> []"
  let ?s2 = "s\<lparr>calls := calls s @ [RunCommand (query ''-Qiif'' n)]\<rparr>"
  have o': "subprocess e (calls ?s2) (query ''-Siif'' n) = (0, outS, errS)"
    using o h by simp
  have res: "resolve e g n s = official_or e n ?s2 other" for other
  proof (cases "rcQ = 0")
    case True
    with h obtain r rest where out: "outQ = r # rest" by (cases outQ) auto
    have "chached_versions g r ?s2 = []" using h True out by (simp add: calls_update_frame)
    then show ?thesis
      using q True out o' h
      by (simp add: resolve_def get_cached_package_miss run_command_def query_def
            official_or_def)
  next
    case False
    then show ?thesis
      using q o' h
      by (simp add: resolve_def get_cached_package_miss run_command_def query_def official_or_def)
  qed
  from official_or_found[OF o', of "\<lambda>t. Inr (None, t)"] h
  obtain s' where s': "official_or e n ?s2 (\<lambda>t. Inr (None, t)) = Inr (None, s')"
      "length (heap s') = Suc (length (heap s))"
      "cls (heap s' ! length (heap s)) = OfficialPackage"
      "name (heap s' ! length (heap s)) = Some (last outS)"
      "repository (heap s' ! length (heap s)) = Some OFFICIAL"
      "dependencies (heap s' ! length (heap s)) = []"
      "error_info (heap s' ! length (heap s)) = None"
      "pkg_dict s' = (pkg_dict s)(n \<mapsto> length (heap s), last outS \<mapsto> length (heap s))"
      "run_commands (calls s') = run_commands (calls ?s2) @ [query ''-Siif'' n]"
    by auto
  have r: "resolve e g n s = Inr (None, s')" using res s'(1) by simp
  have "pkg_dict s n = None \<longrightarrow> get_package_recursive (Suc depth) e g n s = Inr s'"
    using r by simp
  then show "\<exists>s'. resolve e g n s = Inr (None, s') \<and>
          length (heap s') = Suc (length (heap s)) \<and>
          cls (heap s' ! length (heap s)) = OfficialPackage \<and>
          name (heap s' ! length (heap s)) = Some (last outS) \<and>
          repository (heap s' ! length (heap s)) = Some OFFICIAL \<and>
          dependencies (heap s' ! length (heap s)) = [] \<and>
          error_info (heap s' ! length (heap s)) = None \<and>
          pkg_dict s' = (pkg_dict s)(n \<mapsto> length (heap s), last outS \<mapsto> length (heap s)) \<and>
          run_commands (calls s') = run_commands (calls s) @ [query ''-Qiif'' n, query ''-Siif'' n] \<and>
          (pkg_dict s n = None \<longrightarrow> get_package_recursive (Suc depth) e g n s = Inr s')"
    using r s'(2-) by (auto simp: run_commands_append)
next
  assume h: "chached_versions g n s = [] \<and> rcQ \<noteq> 0 \<and> rcS \<noteq> 0 \<and> rcA = 0 \<and>
     find (\<lambda>x. chached_versions g x s \<noteq> []) outA = Some x \<and> comparable e g s x"
  let ?s4 = "s\<lparr>calls := calls s @ [RunCommand (query ''-Qiif'' n), RunCommand (query ''-Siif'' n),
                                      RunCommand (query ''-Aiif'' n)]\<rparr>"
  have cmp4: "comparable e g ?s4 x" using h by (simp add: calls_update_frame)
  have f4: "find (\<lambda>x. chached_versions g x ?s4 \<noteq> []) outA = Some x"
    using h by (simp add: calls_update_frame)
  from first_cached_hit[OF cmp4 f4] obtain a where
    a: "first_cached e g outA ?s4 = Inr (Some a, get_installation_status e a ?s4)"
      "a \<in> set (cached_packages g)" "name (heap ?s4 ! a) = Some x"
    by blast
  have "resolve e g n s = Inr (Some a, get_installation_status e a ?s4)"
    using q o p h a(1)
    by (simp add: resolve_def get_cached_package_miss run_command_def query_def official_or_def)
  then show "\<exists>a s'. resolve e g n s = Inr (Some a, s') \<and> a \<in> set (cached_packages g) \<and>
          name (heap s ! a) = Some x \<and>
          run_commands (calls s') = run_commands (calls s)
             @ [query ''-Qiif'' n, query ''-Siif'' n, query ''-Aiif'' n]"
    using a(2,3) by (simp add: get_installation_status_frame run_commands_append)
next
  assume h: "chached_versions g n s = [] \<and> rcS \<noteq> 0 \<and>
     (rcQ = 0 \<and> outQ \<noteq> [] \<and> chached_versions g (hd outQ) s = [] \<or>
      rcQ \<noteq> 0 \<and> (rcA \<noteq> 0 \<or> find (\<lambda>x. chached_versions g x s \<noteq> []) outA = None))"
  let ?s3 = "s\<lparr>calls := calls s @ [RunCommand (query ''-Qiif'' n), RunCommand (query ''-Siif'' n)]\<rparr>"
  let ?s4 = "s\<lparr>calls := calls s @ [RunCommand (query ''-Qiif'' n), RunCommand (query ''-Siif'' n),
                                      RunCommand (query ''-Aiif'' n)]\<rparr>"
  let ?t = "if rcQ = 0 then ?s3 else ?s4"
  have r: "resolve e g n s = Inr (None, unavailable n ?t)"
  proof (cases "rcQ = 0")
    case True
    with h obtain r rest where out: "outQ = r # rest" by (cases outQ) auto
    have "chached_versions g r (s\<lparr>calls := calls s @ [RunCommand (query ''-Qiif'' n)]\<rparr>) = []"
      using h True out by (simp add: calls_update_frame)
    then show ?thesis
      using q o h True out
      by (simp add: resolve_def get_cached_package_miss run_command_def query_def official_or_def)
  next
    case False
    show ?thesis
    proof (cases "rcA = 0")
      case True
      then have "find (\<lambda>x. chached_versions g x ?s4 \<noteq> []) outA = None"
        using h False by (simp add: calls_update_frame)
      from first_cached_miss[OF this] have "first_cached e g outA ?s4 = Inr (None, ?s4)" .
      then show ?thesis
        using q o p h False True
        by (simp add: resolve_def get_cached_package_miss run_command_def query_def official_or_def)
    next
      case nA: False
      then show ?thesis
        using q o p h False
        by (simp add: resolve_def get_cached_package_miss run_command_def query_def official_or_def)
    qed
  qed
  have "pkg_dict s n = None \<longrightarrow> get_package_recursive (Suc depth) e g n s = Inr (unavailable n ?t)"
    using r by simp
  then show "\<exists>s'. resolve e g n s = Inr (None, s') \<and>
          length (heap s') = Suc (length (heap s)) \<and>
          heap s' ! length (heap s) =
            (class_defaults PackageBase)\<lparr>name := Some n, error_info := Some (CachedPackageUnavailable
               (''No cached package available for '' @ [CHR 0x27] @ n @ [CHR 0x27]))\<rparr> \<and>
          pkg_dict s' = (pkg_dict s)(n \<mapsto> length (heap s)) \<and>
          run_commands (calls s') = run_commands (calls s)
             @ (if rcQ = 0 then [query ''-Qiif'' n, query ''-Siif'' n]
                else [query ''-Qiif'' n, query ''-Siif'' n, query ''-Aiif'' n]) \<and>
          (pkg_dict s n = None \<longrightarrow> get_package_recursive (Suc depth) e g n s = Inr s')"
    using r unavailable_node[of n ?t] by (auto simp: run_commands_append)
qed

text \<open>The claim C7 as it is written fails: the installed-state query succeeds, the
  canonical name has no record in the cache, the official-repository query fails, and the
  provider query would succeed with a name that has a record in the cache; the provider
  query is never run and the result is the node with \<^verbatim>\<open>CachedPackageUnavailable\<close>.\<close>

theorem installed_name_skips_providers_counterexample:
  "case get_package_recursive 1000 skip_env skip_globals ''n'' skip_state of
     Inl x \<Rightarrow> False
   | Inr s' \<Rightarrow>
       chached_versions skip_globals ''n'' skip_state = [] \<and>
       subprocess skip_env (calls skip_state) (query ''-Qiif'' ''n'') = (0, [''r''], []) \<and>
       chached_versions skip_globals ''r'' s' = [] \<and>
       subprocess skip_env (calls s') (query ''-Siif'' ''n'') = (1, [], []) \<and>
       subprocess skip_env (calls s') (query ''-Aiif'' ''n'') = (0, [''p''], []) \<and>
       chached_versions skip_globals ''p'' s' = [0] \<and>
       run_commands (calls s') = [query ''-Qiif'' ''n'', query ''-Siif'' ''n''] \<and>
       \<not> List.member (calls s') (RunCommand (query ''-Aiif'' ''n'')) \<and>
       pkg_dict s' ''n'' = Some 1 \<and> cls (heap s' ! 1) = PackageBase \<and>
       error_info (heap s' ! 1) = Some (CachedPackageUnavailable
          (''No cached package available for '' @ [CHR 0x27] @ ''n'' @ [CHR 0x27]))"
  by code_simp

lemma skip_facts:
  "chached_versions skip_globals ''n'' skip_state = []"
  "chached_versions skip_globals ''r'' skip_state = []"
  "length (heap skip_state) = 1"
  "calls skip_state = []"
  "cached_packages skip_globals = [0]"
  "version (heap skip_state ! 0) = Some ''1.0-1''"
  by code_simp+

lemma skip_env_fields:
  "subprocess skip_env h (query ''-Qiif'' ''n'') = (0, [''r''], [])"
  "subprocess skip_env h (query ''-Siif'' ''n'') = (1, [], [])"
  "subprocess skip_env h (query ''-Aiif'' ''n'') = (0, [''p''], [])"
  "version_lt skip_env = LooseVersion_lt"
  by (simp_all add: skip_env_def dir_env_def answers_def query_def)

lemma loop_facts:
  "chached_versions loop_globals ''x'' loop_state = []"
  "chached_versions loop_globals ''px'' loop_state = [0]"
  "calls loop_state = []"
  "version (heap loop_state ! 0) = Some ''1.0-1''"
  by code_simp+

lemma loop_comparable: "comparable loop_env loop_globals loop_state ''px''"
  by (auto simp: comparable_def loop_facts loop_env_fields LooseVersion_lt_same)

lemma mixed_dict: "pkg_dict mixed_state = Map.empty"
  by (simp add: mixed_state_def initial_state_def)

lemma mixed_facts:
  "chached_versions mixed_globals ''foo'' mixed_state = [0]"
  "calls mixed_state = []"
  "version (heap mixed_state ! 0) = Some ''1.2-1''"
  "version (heap mixed_state ! 1) = Some ''1.2.3-1''"
  "cached_packages mixed_globals = [0, 1]"
  by code_simp+

lemma mixed_env_fields:
  "subprocess mixed_env h c = answers [] c"
  "version_lt mixed_env = LooseVersion_lt"
  by (simp_all add: mixed_env_def dir_env_def)

lemma mixed_comparable: "comparable mixed_env mixed_globals mixed_state ''foo''"
  by (auto simp: comparable_def mixed_facts mixed_env_fields LooseVersion_lt_same)

lemma mixed_versions: "LooseVersion_lt (Some ''1.2-1'') (Some ''1.2.3-1'') = Inl TypeError"
  by code_simp

lemma mixed_name: "name (heap mixed_state ! 1) = Some ''bar''" "name (heap mixed_state ! 0) = Some ''foo''"
  by code_simp+

theorem resolve_precedence_witness:
  "(\<exists>s'. resolve skip_env skip_globals ''n'' skip_state = Inr (None, s') \<and>
         pkg_dict s' = (pkg_dict skip_state)(''n'' \<mapsto> 1) \<and>
         run_commands (calls s') = [query ''-Qiif'' ''n'', query ''-Siif'' ''n'']) \<and>
   comparable loop_env loop_globals loop_state ''px'' \<and>
   (\<exists>a s'. resolve loop_env loop_globals ''x'' loop_state = Inr (Some a, s') \<and>
         name (heap loop_state ! a) = Some ''px'' \<and>
         run_commands (calls s') = [query ''-Qiif'' ''x'', query ''-Siif'' ''x'', query ''-Aiif'' ''x'']) \<and>
   cached_packages mixed_globals = [0, 1] \<and>
   version_lt mixed_env (version (heap mixed_state ! 0)) (version (heap mixed_state ! 1)) = Inl TypeError \<and>
   comparable mixed_env mixed_globals mixed_state ''foo'' \<and>
   (\<exists>s'. resolve mixed_env mixed_globals ''foo'' mixed_state = Inr (Some 0, s') \<and>
         pkg_dict s' = [''foo'' \<mapsto> 0] \<and> run_commands (calls s') = [])"
proof -
  have a: "\<exists>s'. resolve skip_env skip_globals ''n'' skip_state = Inr (None, s') \<and>
         pkg_dict s' = (pkg_dict skip_state)(''n'' \<mapsto> 1) \<and>
         run_commands (calls s') = [query ''-Qiif'' ''n'', query ''-Siif'' ''n'']"
    using resolve_precedence[where depth = 0 and s = skip_state and g = skip_globals,
        OF skip_env_fields(1) skip_env_fields(2) skip_env_fields(3),
        THEN conjunct2, THEN conjunct2, THEN conjunct2, THEN conjunct2]
    by (simp add: skip_facts) blast
  note rl = resolve_precedence[where depth = 0 and x = "''px''" and s = loop_state and g = loop_globals,
        OF loop_env_fields(1)[unfolded query_def[symmetric]] loop_env_fields(2)[unfolded query_def[symmetric]]
        loop_env_fields(3)[unfolded query_def[symmetric]],
        THEN conjunct2, THEN conjunct2, THEN conjunct2, THEN conjunct1]
  have "chached_versions loop_globals ''x'' loop_state = [] \<and> (1::int) \<noteq> 0 \<and> (1::int) \<noteq> 0 \<and> (0::int) = 0 \<and>
     find (\<lambda>x. chached_versions loop_globals x loop_state \<noteq> []) [''px''] = Some ''px'' \<and>
     comparable loop_env loop_globals loop_state ''px''"
    using loop_comparable by (simp add: loop_facts)
  with rl have b: "\<exists>a s'. resolve loop_env loop_globals ''x'' loop_state = Inr (Some a, s') \<and>
         name (heap loop_state ! a) = Some ''px'' \<and>
         run_commands (calls s') = [query ''-Qiif'' ''x'', query ''-Siif'' ''x'', query ''-Aiif'' ''x'']"
    by (simp add: loop_facts) blast
  have q: "subprocess mixed_env (calls mixed_state @ cs) (query opt ''foo'') = (1, [], [])" for cs opt
    by (simp add: mixed_env_fields answers_def query_def)
  note r = resolve_precedence[where depth = 0 and e = mixed_env and g = mixed_globals
        and s = mixed_state and n = "''foo''", OF q[of "[]", simplified] q q, THEN conjunct1]
  have "chached_versions mixed_globals ''foo'' mixed_state \<noteq> [] \<and> comparable mixed_env mixed_globals mixed_state ''foo''"
    using mixed_comparable by (simp add: mixed_facts)
  with r obtain a s' where as:
    "resolve mixed_env mixed_globals ''foo'' mixed_state = Inr (Some a, s')"
    "a \<in> set (cached_packages mixed_globals)" "name (heap mixed_state ! a) = Some ''foo''"
    "pkg_dict s' = (pkg_dict mixed_state)(''foo'' \<mapsto> a)" "run_commands (calls s') = run_commands (calls mixed_state)"
    by blast
  have "a = 0" using as(2,3) mixed_name by (auto simp: mixed_facts)
  with as have c: "\<exists>s'. resolve mixed_env mixed_globals ''foo'' mixed_state = Inr (Some 0, s') \<and>
         pkg_dict s' = [''foo'' \<mapsto> 0] \<and> run_commands (calls s') = []"
    by (simp add: mixed_facts mixed_dict)
  have v: "version_lt mixed_env (version (heap mixed_state ! 0)) (version (heap mixed_state ! 1)) = Inl TypeError"
    unfolding mixed_facts mixed_env_fields by (rule mixed_versions)
  show ?thesis using a b c v loop_comparable mixed_comparable mixed_facts(5) by blast
qed

text \<open>Every step of the walk keeps the names of the objects and changes a repository only
  to what the index gives for the name.\<close>

lemma attributed_refl: "attributed g s s"
  by (simp add: attributed_def)

lemma attributed_trans:
  assumes "attributed g s t" and "attributed g t u"
  shows "attributed g s u"
  unfolding attributed_def
proof (intro conjI allI impI)
  show "length (heap s) \<le> length (heap u)"
    using assms unfolding attributed_def by linarith
next
  fix i assume i: "i < length (heap s)"
  then have it: "i < length (heap t)" using assms(1) unfolding attributed_def by linarith
  have n1: "name (heap t ! i) = name (heap s ! i)" using assms(1) i unfolding attributed_def by blast
  have n2: "name (heap u ! i) = name (heap t ! i)" using assms(2) it unfolding attributed_def by blast
  show "name (heap u ! i) = name (heap s ! i)" using n1 n2 by simp
  have r1: "repository (heap t ! i) = repository (heap s ! i) \<or>
         repository (heap t ! i) =
           Some (if name (heap s ! i) \<in> set (map Some (packages_in_offical_repositories g))
                 then OFFICIAL else LOCAL)"
    using assms(1) i unfolding attributed_def by blast
  have r2: "repository (heap u ! i) = repository (heap t ! i) \<or>
         repository (heap u ! i) =
           Some (if name (heap t ! i) \<in> set (map Some (packages_in_offical_repositories g))
                 then OFFICIAL else LOCAL)"
    using assms(2) it unfolding attributed_def by blast
  show "repository (heap u ! i) = repository (heap s ! i) \<or>
         repository (heap u ! i) =
           Some (if name (heap s ! i) \<in> set (map Some (packages_in_offical_repositories g))
                 then OFFICIAL else LOCAL)"
    using r1 r2 n1 by auto
qed

lemma update_keeps:
  assumes "\<And>p. sel (f p) = sel p" and "i < length xs"
  shows "sel (xs[a := f (xs ! a)] ! i) = sel (xs ! i)"
  using assms by (cases "i = a") simp_all

lemma attributed_update:
  assumes "\<And>p. name (f p) = name p" and "\<And>p. repository (f p) = repository p"
  shows "attributed g s (update_obj a f s)"
  unfolding attributed_def update_obj_def
  by (simp add: update_keeps[of name, OF assms(1)] update_keeps[of repository, OF assms(2)])

lemma attributed_calls: "attributed g s (s\<lparr>calls := c\<rparr>)"
  by (simp add: attributed_def)

lemma attributed_dict: "attributed g s (s\<lparr>pkg_dict := d\<rparr>)"
  by (simp add: attributed_def)

lemma attributed_new: "attributed g s (snd (new_obj p s))"
  by (simp add: attributed_def new_obj_def nth_append)

lemma attributed_status: "attributed g s (get_installation_status e a s)"
  unfolding get_installation_status_def Let_def
  by (auto intro!: attributed_trans[OF attributed_calls attributed_update]
        attributed_trans[OF attributed_calls attributed_trans[OF attributed_calls attributed_update]])

lemma attributed_lookup:
  "get_cached_package e g' n s = Inr (r, s') \<Longrightarrow> attributed g s s'"
  by (auto simp: get_cached_package_def attributed_refl attributed_status split: list.splits sum.splits)

lemma attributed_first:
  "first_cached e g' out s = Inr (r, s') \<Longrightarrow> attributed g s s'"
proof (induction out arbitrary: s)
  case Nil
  then show ?case by (simp add: attributed_refl)
next
  case (Cons x out)
  show ?case
  proof (cases "get_cached_package e g' x s")
    case (Inl a)
    then show ?thesis using Cons.prems by simp
  next
    case (Inr b)
    obtain q t where b: "b = (q, t)" by (cases b)
    have st: "attributed g s t" using attributed_lookup Inr b by blast
    show ?thesis
    proof (cases q)
      case None
      then have "first_cached e g' out t = Inr (r, s')" using Cons.prems Inr b by simp
      from attributed_trans[OF st Cons.IH[OF this]] show ?thesis .
    next
      case (Some a)
      then show ?thesis using Cons.prems Inr b st by simp
    qed
  qed
qed

lemma attributed_command: "attributed g s (snd (run_command e c s))"
  by (simp add: run_command_def attributed_calls)

lemma attributed_alias:
  "attributed g s (snd (get_dependencies_from_alias e ds deps s))"
proof (induction ds arbitrary: deps s)
  case Nil
  then show ?case by (simp add: attributed_refl)
next
  case (Cons d ds)
  let ?c = "[''package-query'', ''-QASiif'', ''%n'', strip_constraint d]"
  let ?t = "snd (run_command e ?c s)"
  have st: "attributed g s ?t" by (rule attributed_command)
  have "\<exists>deps'. snd (get_dependencies_from_alias e (d # ds) deps s) = ?t \<or>
         snd (get_dependencies_from_alias e (d # ds) deps s) = snd (get_dependencies_from_alias e ds deps' ?t)"
    by (auto simp: Let_def split: prod.splits)
  then show ?case using st attributed_trans[OF st Cons.IH] by auto
qed

lemma attributed_unavailable: "attributed g s (unavailable n s)"
  by (simp add: unavailable_def new_obj_def attributed_def nth_append)

lemma attributed_official_init: "attributed g s (snd (OfficialPackage_init e n s))"
  using attributed_trans[OF attributed_new attributed_status]
  by (simp add: OfficialPackage_init_def split: prod.splits) (metis snd_conv)

lemma attributed_official_or:
  assumes ot: "\<And>t r s'. otherwise t = Inr (r, s') \<Longrightarrow> attributed g t s'"
    and res: "official_or e n s otherwise = Inr (r, s')"
  shows "attributed g s s'"
proof -
  let ?t = "snd (run_command e [''package-query'', ''-Siif'', ''%n'', n] s)"
  have st: "attributed g s ?t" by (rule attributed_command)
  from res have "attributed g ?t s'"
    using ot attributed_trans[OF attributed_official_init attributed_dict]
    by (auto simp: official_or_def Let_def split: prod.splits if_splits) (metis snd_conv)+
  with st show ?thesis by (rule attributed_trans)
qed


lemma attributed_resolve:
  assumes "resolve e g' n s = Inr (r, s')"
  shows "attributed g s s'"
proof (cases "get_cached_package e g' n s")
  case (Inl x)
  then show ?thesis using assms by (simp add: resolve_def)
next
  case (Inr b)
  obtain q s1 where b: "b = (q, s1)" by (cases b)
  have 1: "attributed g s s1" using attributed_lookup Inr b by blast
  show ?thesis
  proof (cases q)
    case (Some a)
    then have "s' = s1\<lparr>pkg_dict := (pkg_dict s1)(n \<mapsto> a)\<rparr>"
      using assms Inr b by (auto simp: resolve_def)
    then show ?thesis using attributed_trans[OF 1 attributed_dict] by simp
  next
    case None
    let ?c = "[''package-query'', ''-Qiif'', ''%n'', n]"
    let ?s2 = "snd (run_command e ?c s1)"
    have 2: "attributed g s ?s2" using attributed_trans[OF 1 attributed_command] .
    obtain rc out err where rq: "fst (run_command e ?c s1) = (rc, out, err)"
      by (cases "fst (run_command e ?c s1)")
    have un: "\<And>t r s'. Inr (None, unavailable n t) = Inr (r, s') \<Longrightarrow> attributed g t s'"
      using attributed_unavailable by auto
    show ?thesis
    proof (cases "rc = 0")
      case True
      show ?thesis
      proof (cases out)
        case Nil
        then show ?thesis using assms Inr b None rq True
          by (simp add: resolve_def split: prod.splits)
      next
        case (Cons real rest)
        show ?thesis
        proof (cases "get_cached_package e g' real ?s2")
          case (Inl x)
          then show ?thesis using assms Inr b None rq True Cons
            by (simp add: resolve_def split: prod.splits)
        next
          case i2: (Inr b2)
          obtain q2 s3 where b2: "b2 = (q2, s3)" by (cases b2)
          have 3: "attributed g s s3" using attributed_trans[OF 2 attributed_lookup] i2 b2 by blast
          show ?thesis
          proof (cases q2)
            case (Some a)
            then have "s' = s3\<lparr>pkg_dict := (pkg_dict s3)(n \<mapsto> a, real \<mapsto> a)\<rparr>"
              using assms Inr b None rq True Cons i2 b2
              by (auto simp: resolve_def split: prod.splits)
            then show ?thesis using attributed_trans[OF 3 attributed_dict] by simp
          next
            case n2: None
            then have "official_or e n s3 (\<lambda>s4. Inr (None, unavailable n s4)) = Inr (r, s')"
              using assms Inr b None rq True Cons i2 b2
              by (simp add: resolve_def split: prod.splits)
            from attributed_trans[OF 3 attributed_official_or[OF un this]] show ?thesis .
          qed
        qed
      qed
    next
      case False
      let ?other = "\<lambda>s3.
                  (let ((rc, out, err), s4) = run_command e [''package-query'', ''-Aiif'', ''%n'', n] s3
                   in case (if rc = 0 then first_cached e g' out s4 else Inr (None, s4)) of
                        Inl x \<Rightarrow> Inl x
                      | Inr (Some a, s5) \<Rightarrow> Inr (Some a, s5)
                      | Inr (None, s5) \<Rightarrow> Inr (None, unavailable n s5))"
      have o: "official_or e n ?s2 ?other = Inr (r, s')"
        using assms Inr b None rq False
        by (simp add: resolve_def split: prod.splits)
      have ot: "attributed g t u" if h: "?other t = Inr (q, u)" for t q u
      proof -
        obtain x s4 where r1: "run_command e [''package-query'', ''-Aiif'', ''%n'', n] t = (x, s4)"
          by (cases "run_command e [''package-query'', ''-Aiif'', ''%n'', n] t")
        obtain rc' out' err' where r2: "x = (rc', out', err')" by (cases x)
        have 4: "attributed g t s4"
          using attributed_command[of g t e "[''package-query'', ''-Aiif'', ''%n'', n]"] r1 by simp
        define F where "F = (if rc' = 0 then first_cached e g' out' s4 else Inr (None, s4))"
        from h r1 r2 have "(case F of Inl x \<Rightarrow> Inl x
                      | Inr (Some a, s5) \<Rightarrow> Inr (Some a, s5)
                      | Inr (None, s5) \<Rightarrow> Inr (None, unavailable n s5)) = Inr (q, u)"
          by (simp add: F_def)
        then obtain q5 s5 where f: "F = Inr (q5, s5)" and u: "u = s5 \<or> u = unavailable n s5"
          by (auto split: sum.splits option.splits prod.splits)
        have 5: "attributed g s4 s5"
          using f attributed_first attributed_refl unfolding F_def by (auto split: if_splits)
        have "attributed g s5 u" using u attributed_refl attributed_unavailable by auto
        from attributed_trans[OF 4 attributed_trans[OF 5 this]] show ?thesis .
      qed
      from attributed_trans[OF 2 attributed_official_or[OF ot o]] show ?thesis .
    qed
  qed
qed

lemma attributed_repository: "attributed g s (determine_repository g a s)"
proof -
  have "i < length (heap s) \<Longrightarrow>
          name (heap (determine_repository g a s) ! i) = name (heap s ! i) \<and>
          (repository (heap (determine_repository g a s) ! i) = repository (heap s ! i) \<or>
           repository (heap (determine_repository g a s) ! i) =
             Some (if name (heap s ! i) \<in> set (map Some (packages_in_offical_repositories g))
                   then OFFICIAL else LOCAL))" for i
    by (cases "i = a") (simp_all add: determine_repository_def update_obj_def)
  then show ?thesis by (simp add: attributed_def determine_repository_def update_obj_def)
qed

lemma attributed_info: "attributed g s (determine_package_info e depth a s)"
proof (cases "repository (heap s ! a) = Some LOCAL \<and> \<not> depth < archive_frames e")
  case False
  have "attributed g s (update_obj a (\<lambda>p. p\<lparr>error_info := Some (parse_error p)\<rparr>) s)"
    by (rule attributed_update) simp_all
  then show ?thesis using False by (auto simp: determine_package_info_def attributed_refl)
next
  case True
  let ?s1 = "s\<lparr>calls := calls s @ [ReadArchive (path (heap s ! a))]\<rparr>"
  have up: "attributed g t (update_obj a (\<lambda>p. p\<lparr>error_info := Some (parse_error p)\<rparr>) t)" for t
    by (rule attributed_update) simp_all
  have up2: "attributed g t (update_obj a (\<lambda>p. p\<lparr>dependencies := d, architecture := x, license := y\<rparr>) t)" for t d x y
    by (rule attributed_update) simp_all
  have 1: "attributed g s ?s1" by (rule attributed_calls)
  have al: "attributed g s (snd (get_dependencies_from_alias e ds [] ?s1))" for ds
    using attributed_trans[OF 1 attributed_alias] .
  show ?thesis
  proof (cases "read_pkginfo e (calls s) (path (heap s ! a))")
    case None
    then have "determine_package_info e depth a s
        = update_obj a (\<lambda>p. p\<lparr>error_info := Some (parse_error p)\<rparr>) ?s1"
      using True by (simp add: determine_package_info_def)
    then show ?thesis using attributed_trans[OF 1 up] by simp
  next
    case (Some c)
    define X where "X = (case parse_from_string ''depend'' c of
                             PNone \<Rightarrow> (Inr [], ?s1)
                           | PStr d \<Rightarrow>
                               if depth < alias_frames e then (Inl RecursionError, ?s1)
                               else get_dependencies_from_alias e [d] [] ?s1
                           | PList ds \<Rightarrow>
                               if depth < alias_frames e then (Inl RecursionError, ?s1)
                               else get_dependencies_from_alias e ds [] ?s1)"
    have X: "attributed g s (snd X)"
      unfolding X_def using 1 al
      by (cases "parse_from_string ''depend'' c")
        (simp_all del: get_dependencies_from_alias.simps)
    have r: "determine_package_info e depth a s =
       (case fst X of
          Inl x \<Rightarrow> update_obj a (\<lambda>p. p\<lparr>error_info := Some (parse_error p)\<rparr>) (snd X)
        | Inr deps \<Rightarrow> update_obj a (\<lambda>p. p\<lparr>dependencies := deps,
                             architecture := parse_from_string ''arch'' c,
                             license := parse_from_string ''license'' c\<rparr>) (snd X))"
      using True Some unfolding X_def
      by (simp add: determine_package_info_def Let_def case_prod_beta
            del: get_dependencies_from_alias.simps cong: sum.case_cong)
    show ?thesis
      unfolding r using attributed_trans[OF X up] attributed_trans[OF X up2]
      by (cases "fst X") simp_all
  qed
qed

lemma attributed_for_each:
  assumes f: "\<And>x s s'. f x s = Inr s' \<Longrightarrow> attributed g s s'"
  shows "for_each f xs s = Inr s' \<Longrightarrow> attributed g s s'"
proof (induction xs arbitrary: s)
  case Nil
  then show ?case by (simp add: attributed_refl)
next
  case (Cons x xs)
  then obtain t where t: "f x s = Inr t" "for_each f xs t = Inr s'"
    by (auto split: sum.splits)
  from attributed_trans[OF f[OF t(1)] Cons.IH[OF t(2)]] show ?case .
qed

lemma attributed_walk:
  "get_package_recursive depth e g n s = Inr s' \<Longrightarrow> attributed g s s'"
proof (induction depth arbitrary: n s s')
  case 0
  then show ?case by simp
next
  case (Suc depth)
  show ?case
  proof (cases "pkg_dict s n \<noteq> None")
    case True
    then show ?thesis using Suc.prems by (simp add: attributed_refl)
  next
    case False
    show ?thesis
    proof (cases "resolve e g n s")
      case (Inl x)
      then show ?thesis using Suc.prems False by simp
    next
      case (Inr b)
      obtain q s1 where b: "b = (q, s1)" by (cases b)
      have 1: "attributed g s s1" using attributed_resolve Inr b by blast
      show ?thesis
      proof (cases q)
        case None
        then show ?thesis using Suc.prems False Inr b 1 by simp
      next
        case (Some a)
        let ?s2 = "determine_package_info e depth a (determine_repository g a s1)"
        have 2: "attributed g s ?s2"
          using attributed_trans[OF 1 attributed_trans[OF attributed_repository attributed_info]] .
        have "s' = ?s2 \<or> for_each (get_package_recursive depth e g) (dependencies (heap ?s2 ! a)) ?s2 = Inr s'"
          using Suc.prems False Inr b Some by (auto simp: Let_def split: if_splits)
        then show ?thesis
        proof
          assume "s' = ?s2"
          then show ?thesis using 2 by simp
        next
          assume "for_each (get_package_recursive depth e g) (dependencies (heap ?s2 ! a)) ?s2 = Inr s'"
          from attributed_trans[OF 2 attributed_for_each[OF Suc.IH this]] show ?thesis .
        qed
      qed
    qed
  qed
qed

lemma attributed_settled:
  assumes "attributed g s s'" and "i < length (heap s)"
    and "repository (heap s ! i) =
           Some (if name (heap s ! i) \<in> set (map Some (packages_in_offical_repositories g))
                 then OFFICIAL else LOCAL)"
  shows "repository (heap s' ! i) = repository (heap s ! i)"
  using assms unfolding attributed_def by metis


lemma attributed_name:
  "attributed g s s' \<Longrightarrow> i < length (heap s) \<Longrightarrow> name (heap s' ! i) = name (heap s ! i)"
  unfolding attributed_def by blast

lemma attributed_length:
  "attributed g s s' \<Longrightarrow> i < length (heap s) \<Longrightarrow> i < length (heap s')"
  unfolding attributed_def by linarith

lemma first_cached_member:
  "first_cached e g out s = Inr (Some a, s') \<Longrightarrow> a \<in> set (cached_packages g)"
proof (induction out arbitrary: s)
  case Nil
  then show ?case by simp
next
  case (Cons x out)
  then show ?case
    using get_cached_package_name[of e g x s a]
    by (auto split: sum.splits option.splits prod.splits)
qed

lemma official_or_member:
  assumes "official_or e n s other = Inr (Some a, s')"
  shows "\<exists>t. other t = Inr (Some a, s')"
  using assms by (auto simp: official_or_def Let_def split: prod.splits if_splits)

lemma resolve_member:
  assumes "resolve e g n s = Inr (Some a, s')"
  shows "a \<in> set (cached_packages g)"
proof (cases "get_cached_package e g n s")
  case (Inl x)
  then show ?thesis using assms by (simp add: resolve_def)
next
  case (Inr b)
  obtain q s1 where b: "b = (q, s1)" by (cases b)
  show ?thesis
  proof (cases q)
    case (Some c)
    then have "c = a" using assms Inr b by (auto simp: resolve_def)
    then show ?thesis using get_cached_package_name[of e g n s c s1] Inr b Some by simp
  next
    case None
    obtain x s2 where r1: "run_command e [''package-query'', ''-Qiif'', ''%n'', n] s1 = (x, s2)"
      by (cases "run_command e [''package-query'', ''-Qiif'', ''%n'', n] s1")
    obtain rc out err where r2: "x = (rc, out, err)" by (cases x)
    show ?thesis
    proof (cases "rc = 0")
      case True
      show ?thesis
      proof (cases out)
        case Nil
        then show ?thesis using assms Inr b None r1 r2 True by (simp add: resolve_def)
      next
        case (Cons real rest)
        show ?thesis
        proof (cases "get_cached_package e g real s2")
          case (Inl x)
          then show ?thesis using assms Inr b None r1 r2 True Cons by (simp add: resolve_def)
        next
          case i2: (Inr b2)
          obtain q2 s3 where b2: "b2 = (q2, s3)" by (cases b2)
          show ?thesis
          proof (cases q2)
            case (Some c)
            then have "c = a" using assms Inr b None r1 r2 True Cons i2 b2 by (auto simp: resolve_def)
            then show ?thesis using get_cached_package_name[of e g real s2 c s3] i2 b2 Some by simp
          next
            case n2: None
            then have "official_or e n s3 (\<lambda>s4. Inr (None, unavailable n s4)) = Inr (Some a, s')"
              using assms Inr b None r1 r2 True Cons i2 b2 by (simp add: resolve_def)
            from official_or_member[OF this] show ?thesis by simp
          qed
        qed
      qed
    next
      case False
      let ?other = "\<lambda>s3.
                  (let ((rc, out, err), s4) = run_command e [''package-query'', ''-Aiif'', ''%n'', n] s3
                   in case (if rc = 0 then first_cached e g out s4 else Inr (None, s4)) of
                        Inl x \<Rightarrow> Inl x
                      | Inr (Some a, s5) \<Rightarrow> Inr (Some a, s5)
                      | Inr (None, s5) \<Rightarrow> Inr (None, unavailable n s5))"
      have "official_or e n s2 ?other = Inr (Some a, s')"
        using assms Inr b None r1 r2 False by (simp add: resolve_def)
      from official_or_member[OF this] obtain t where t: "?other t = Inr (Some a, s')" by blast
      obtain y s4 where q1: "run_command e [''package-query'', ''-Aiif'', ''%n'', n] t = (y, s4)"
        by (cases "run_command e [''package-query'', ''-Aiif'', ''%n'', n] t")
      obtain rc' out' err' where q2: "y = (rc', out', err')" by (cases y)
      define F where "F = (if rc' = 0 then first_cached e g out' s4 else Inr (None, s4))"
      from t q1 q2 have "(case F of Inl x \<Rightarrow> Inl x
                      | Inr (Some a, s5) \<Rightarrow> Inr (Some a, s5)
                      | Inr (None, s5) \<Rightarrow> Inr (None, unavailable n s5)) = Inr (Some a, s')"
        by (simp add: F_def)
      then have "F = Inr (Some a, s')"
        by (auto split: sum.splits option.splits prod.splits)
      then show ?thesis using first_cached_member unfolding F_def by (auto split: if_splits)
    qed
  qed
qed

text \<open>
  C9, as the code has it.  When \<^verbatim>\<open>get_package_recursive\<close>, called for a name that is not a
  key, finds an object of the cache (lines 376 to 432) and returns, that object has the
  repository \<^verbatim>\<open>OFFICIAL\<close> when its name is the id of an entry of the index of the official
  repositories, and \<^verbatim>\<open>LOCAL\<close> only otherwise; the walk over its dependencies changes
  neither its name nor that repository.
\<close>

theorem resolved_repository_by_index:
  assumes key: "pkg_dict s n = None"
    and res: "resolve e g n s = Inr (Some a, s1)"
    and len: "a < length (heap s)"
    and walk: "get_package_recursive (Suc depth) e g n s = Inr s'"
  shows "a \<in> set (cached_packages g) \<and> name (heap s' ! a) = name (heap s ! a) \<and>
         repository (heap s' ! a) =
           Some (if name (heap s ! a) \<in> set (map Some (packages_in_offical_repositories g))
                 then OFFICIAL else LOCAL)"
proof -
  let ?sr = "determine_repository g a s1"
  let ?s2 = "determine_package_info e depth a ?sr"
  have 1: "attributed g s s1" using attributed_resolve[OF res] .
  have l1: "a < length (heap s1)" using attributed_length[OF 1 len] .
  have n1: "name (heap s1 ! a) = name (heap s ! a)" using attributed_name[OF 1 len] .
  have lr: "a < length (heap ?sr)" using l1 by (simp add: determine_repository_def update_obj_def)
  have nr: "name (heap ?sr ! a) = name (heap s ! a)"
    using l1 n1 by (simp add: determine_repository_def update_obj_def)
  have rr: "repository (heap ?sr ! a) =
           Some (if name (heap ?sr ! a) \<in> set (map Some (packages_in_offical_repositories g))
                 then OFFICIAL else LOCAL)"
    using l1 by (simp add: determine_repository_def update_obj_def)
  have 2: "attributed g ?sr ?s2" by (rule attributed_info)
  have "s' = ?s2 \<or> for_each (get_package_recursive depth e g) (dependencies (heap ?s2 ! a)) ?s2 = Inr s'"
    using walk key res by (auto simp: Let_def split: if_splits)
  moreover have "attributed g t u"
    if "for_each (get_package_recursive depth e g) xs t = Inr u" for xs t u
  proof (rule attributed_for_each[where f = "get_package_recursive depth e g"])
    show "for_each (get_package_recursive depth e g) xs t = Inr u" by (rule that)
  next
    fix x v w
    assume "get_package_recursive depth e g x v = Inr w"
    then show "attributed g v w" by (rule attributed_walk)
  qed
  ultimately have "attributed g ?s2 s'"
    using attributed_refl by blast
  then have 3: "attributed g ?sr s'" using attributed_trans[OF 2] by blast
  have "repository (heap s' ! a) = repository (heap ?sr ! a)"
    using attributed_settled[OF 3 lr rr] .
  moreover have "name (heap s' ! a) = name (heap ?sr ! a)" using attributed_name[OF 3 lr] .
  ultimately show ?thesis using resolve_member[OF res] nr rr by simp
qed


lemma indexed_facts:
  "chached_versions indexed_globals ''foo'' indexed_state = [0]"
  "cached_packages indexed_globals = [0]"
  "packages_in_offical_repositories indexed_globals = [''foo'']"
  "name (heap indexed_state ! 0) = Some ''foo''"
  "version (heap indexed_state ! 0) = Some ''1.0-1''"
  "length (heap indexed_state) = 1"
  "case get_package_recursive 1000 indexed_env indexed_globals ''foo'' indexed_state of
     Inl x \<Rightarrow> False | Inr s' \<Rightarrow> True"
  by code_simp+

lemma indexed_env_fields: "version_lt indexed_env = LooseVersion_lt"
  by (simp add: indexed_env_def dir_env_def)

lemma indexed_dict: "pkg_dict indexed_state = Map.empty"
  by (simp add: indexed_state_def initial_state_def)

lemma mixed_walk:
  "packages_in_offical_repositories mixed_globals = []"
  "length (heap mixed_state) = 2"
  "case get_package_recursive 1000 mixed_env mixed_globals ''foo'' mixed_state of
     Inl x \<Rightarrow> False | Inr s' \<Rightarrow> True"
  by code_simp+

theorem resolved_repository_by_index_witness:
  "pkg_dict indexed_state ''foo'' = None \<and>
   packages_in_offical_repositories indexed_globals = [''foo''] \<and>
   name (heap indexed_state ! 0) = Some ''foo'' \<and>
   (\<exists>s1. resolve indexed_env indexed_globals ''foo'' indexed_state = Inr (Some 0, s1)) \<and>
   (\<exists>s'. get_package_recursive 1000 indexed_env indexed_globals ''foo'' indexed_state = Inr s' \<and>
         repository (heap s' ! 0) = Some OFFICIAL) \<and>
   pkg_dict mixed_state ''foo'' = None \<and>
   packages_in_offical_repositories mixed_globals = [] \<and>
   name (heap mixed_state ! 0) = Some ''foo'' \<and>
   (\<exists>s1. resolve mixed_env mixed_globals ''foo'' mixed_state = Inr (Some 0, s1)) \<and>
   (\<exists>s'. get_package_recursive 1000 mixed_env mixed_globals ''foo'' mixed_state = Inr s' \<and>
         repository (heap s' ! 0) = Some LOCAL)"
proof -
  have cmp: "comparable indexed_env indexed_globals indexed_state ''foo''"
    using indexed_facts(1,5) by (auto simp: comparable_def indexed_env_fields LooseVersion_lt_same)
  have "chached_versions indexed_globals ''foo'' indexed_state \<noteq> []"
    by (simp add: indexed_facts)
  from resolve_exact[OF cmp this] obtain a s1 where
    "resolve indexed_env indexed_globals ''foo'' indexed_state = Inr (Some a, s1)"
    "a \<in> set (cached_packages indexed_globals)" by blast
  then have r1: "resolve indexed_env indexed_globals ''foo'' indexed_state = Inr (Some 0, s1)"
    by (simp add: indexed_facts)
  obtain s' where w1: "get_package_recursive (Suc 999) indexed_env indexed_globals ''foo'' indexed_state = Inr s'"
    using indexed_facts(7) by (auto split: sum.splits)
  have k1: "pkg_dict indexed_state ''foo'' = None" by (simp add: indexed_dict)
  have l1: "0 < length (heap indexed_state)" by (simp add: indexed_facts)
  have a: "repository (heap s' ! 0) = Some OFFICIAL"
    using resolved_repository_by_index[OF k1 r1 l1 w1] by (simp add: indexed_facts)
  have "chached_versions mixed_globals ''foo'' mixed_state \<noteq> []"
    by (simp add: mixed_facts)
  from resolve_exact[OF mixed_comparable this] obtain b s2 where
    b: "resolve mixed_env mixed_globals ''foo'' mixed_state = Inr (Some b, s2)"
    "b \<in> set (cached_packages mixed_globals)" "name (heap mixed_state ! b) = Some ''foo''"
    by blast
  have "b = 0" using b(2,3) mixed_name mixed_facts by auto
  then have r2: "resolve mixed_env mixed_globals ''foo'' mixed_state = Inr (Some 0, s2)"
    using b(1) by simp
  obtain t' where w2: "get_package_recursive (Suc 999) mixed_env mixed_globals ''foo'' mixed_state = Inr t'"
    using mixed_walk(3) by (auto split: sum.splits)
  have k2: "pkg_dict mixed_state ''foo'' = None" by (simp add: mixed_dict)
  have l2: "0 < length (heap mixed_state)" by (simp add: mixed_walk)
  have c: "repository (heap t' ! 0) = Some LOCAL"
    using resolved_repository_by_index[OF k2 r2 l2 w2] by (simp add: mixed_walk)
  show ?thesis
    using k1 indexed_facts(3,4) r1 w1 a k2 mixed_walk(1) mixed_name(2) r2 w2 c by auto
qed

text \<open>The claim C9 as it is written fails: a name found in the cache that is also in the
  index of the official repositories is resolved to an object of the cache with the
  repository \<^verbatim>\<open>OFFICIAL\<close>.\<close>

theorem cached_node_official_counterexample:
  "case get_package_recursive 1000 quiet_env foo_official ''foo'' one_archive of
     Inl x \<Rightarrow> False
   | Inr s \<Rightarrow> List.member (cached_packages foo_official) 0 \<and> pkg_dict s ''foo'' = Some 0 \<and>
       cls (heap s ! 0) = CachedPackage \<and>
       repository (heap s ! 0) = Some OFFICIAL \<and> repository (heap s ! 0) \<noteq> Some LOCAL"
  by code_simp

section \<open>Installation\<close>

text \<open>
  C8: \<^verbatim>\<open>CachedPackage.install\<close> for an object with an archive path.  With the status 1
  (installed in the same version) and no force, the state is returned as it was, so no
  command has run and the status is unchanged.  With the status 1 and force, or with the
  status 0 or 2 whatever the force, exactly one command is run, \<^verbatim>\<open>pacman -U\<close> on the path
  with \<^verbatim>\<open>--force\<close> exactly when the status was 1; a return code 0 sets the status 4 after
  the status 1 and the status 3 otherwise and leaves \<^verbatim>\<open>error_info\<close>, another return code
  sets the status -1 and records the error lines of the command in \<^verbatim>\<open>error_info\<close>.
\<close>

theorem CachedPackage_install_cases:
  assumes "a < length (heap s)"
    and "path (heap s ! a) = Some p"
    and "st = installation_status (heap s ! a)"
    and "cmd = [''pacman'', ''-U'', ''--noconfirm'', ''--noprogressbar'', ''--cachedir'', pacman_cache_dir g]
               @ (if st = 1 then [''--force''] else []) @ [p]"
    and "subprocess e (calls s) cmd = (rc, out, err)"
  shows "(st = 1 \<and> \<not> frc \<longrightarrow> CachedPackage_install e g a frc s = Inr s) \<and>
         (st = 1 \<and> frc \<or> st = 0 \<or> st = 2 \<longrightarrow>
            (\<exists>s'. CachedPackage_install e g a frc s = Inr s' \<and>
                  calls s' = calls s @ [RunCommand cmd] \<and>
                  (rc = 0 \<longrightarrow> installation_status (heap s' ! a) = (if st = 1 then 4 else 3) \<and>
                               error_info (heap s' ! a) = error_info (heap s ! a)) \<and>
                  (rc \<noteq> 0 \<longrightarrow> installation_status (heap s' ! a) = - 1 \<and>
                     error_info (heap s' ! a) = Some (Exception (''Failed to install package ''
                        @ str_opt (name (heap s ! a)) @ '' '' @ str_opt (version (heap s ! a)) @ '': ''
                        @ join [CHR 0x0A] err)))))"
  using assms
  by (auto simp: CachedPackage_install_def run_command_def update_obj_def Let_def)

lemma installed_archive_facts:
  "0 < length (heap installed_archive)"
  "path (heap installed_archive ! 0) = Some ''/c/foo-1.0-1-any.pkg.tar.xz''"
  "installation_status (heap installed_archive ! 0) = 1"
  "calls installed_archive = []"
  by (simp_all add: installed_archive_def archive_def class_defaults_def)

theorem CachedPackage_install_cases_witness:
  "CachedPackage_install willing_env two_globals 0 False installed_archive = Inr installed_archive \<and>
   (\<exists>s'. CachedPackage_install willing_env two_globals 0 True installed_archive = Inr s' \<and>
         calls s' = [RunCommand [''pacman'', ''-U'', ''--noconfirm'', ''--noprogressbar'', ''--cachedir'',
                                 ''/c'', ''--force'', ''/c/foo-1.0-1-any.pkg.tar.xz'']] \<and>
         installation_status (heap s' ! 0) = 4)"
proof -
  have sub: "subprocess willing_env (calls installed_archive)
               ([''pacman'', ''-U'', ''--noconfirm'', ''--noprogressbar'', ''--cachedir'', pacman_cache_dir two_globals]
                @ (if (1::int) = 1 then [''--force''] else []) @ [''/c/foo-1.0-1-any.pkg.tar.xz'']) = (0, [], [])"
    by (simp add: willing_env_def quiet_env_def)
  have st: "(1::int) = installation_status (heap installed_archive ! 0)"
    by (simp add: installed_archive_facts)
  show ?thesis
    using CachedPackage_install_cases[OF installed_archive_facts(1) installed_archive_facts(2) st refl sub, of False]
      CachedPackage_install_cases[OF installed_archive_facts(1) installed_archive_facts(2) st refl sub, of True]
    by (auto simp: installed_archive_facts two_globals_def)
qed

text \<open>
  C1, at the input where the code leaves the claim: \<^verbatim>\<open>a\<close> depends on \<^verbatim>\<open>b\<close>, \<^verbatim>\<open>b\<close> on
  \<^verbatim>\<open>c\<close>, both archives are in the cache and \<^verbatim>\<open>c\<close> is nowhere.  After resolution and
  installation of \<^verbatim>\<open>a\<close>, the node of \<^verbatim>\<open>c\<close> has its error and \<^verbatim>\<open>b\<close> has the status -2,
  but \<^verbatim>\<open>b\<close> has no \<^verbatim>\<open>error_info\<close>, so the loop of \<^verbatim>\<open>a\<close> goes on: the install command of
  \<^verbatim>\<open>a\<close> has run and \<^verbatim>\<open>a\<close> has the status 3, not -2.
\<close>

theorem grandchild_failure_not_propagated:
  "case get_package_recursive 1000 chain_env chain_globals ''a'' chain_state of
     Inl x \<Rightarrow> False
   | Inr s1 \<Rightarrow>
       (case install_package_recursive 1000 chain_env chain_globals False False ''a'' s1 of
          Inl x \<Rightarrow> False
        | Inr s2 \<Rightarrow>
            pkg_dict s2 ''a'' = Some 0 \<and> pkg_dict s2 ''b'' = Some 1 \<and> pkg_dict s2 ''c'' = Some 2 \<and>
            cls (heap s2 ! 0) = CachedPackage \<and> repository (heap s2 ! 0) = Some LOCAL \<and>
            dependencies (heap s2 ! 0) = [''b''] \<and> dependencies (heap s2 ! 1) = [''c''] \<and>
            error_info (heap s2 ! 2) = Some (CachedPackageUnavailable
               (''No cached package available for '' @ [CHR 0x27] @ ''c'' @ [CHR 0x27])) \<and>
            installation_status (heap s2 ! 1) = - 2 \<and> error_info (heap s2 ! 1) = None \<and>
            installation_status (heap s2 ! 0) = 3 \<and> installation_status (heap s2 ! 0) \<noteq> - 2 \<and>
            List.member (calls s2) (RunCommand [''pacman'', ''-U'', ''--noconfirm'', ''--noprogressbar'',
               ''--cachedir'', ''/c'', ''/c/a-1.0-1-any.pkg.tar.xz'']))"
  by code_simp

section \<open>Report and exit status\<close>

text \<open>
  C3, at the input of the claim: \<^verbatim>\<open>a\<close> is in the cache and depends on \<^verbatim>\<open>b\<close>, which is
  nowhere, so the node of \<^verbatim>\<open>b\<close> carries \<^verbatim>\<open>CachedPackageUnavailable\<close> and has no version.
  Rendering the report of \<^verbatim>\<open>a\<close> does not return lines: \<^verbatim>\<open>format_log\<close> raises
  \<^verbatim>\<open>TypeError\<close> on the node of \<^verbatim>\<open>b\<close>, \<^verbatim>\<open>main\<close> prints no report and the exit status is 1.
\<close>

theorem unavailable_dependency_report_raises:
  "(case get_package_recursive 1000 pair_env pair_globals ''a'' pair_state of
     Inl x \<Rightarrow> False
   | Inr s1 \<Rightarrow>
       (case install_package_recursive 1000 pair_env pair_globals False False ''a'' s1 of
          Inl x \<Rightarrow> False
        | Inr s2 \<Rightarrow>
            pkg_dict s2 ''a'' = Some 0 \<and> pkg_dict s2 ''b'' = Some 1 \<and>
            dependencies (heap s2 ! 0) = [''b''] \<and>
            error_info (heap s2 ! 1) = Some (CachedPackageUnavailable
               (''No cached package available for '' @ [CHR 0x27] @ ''b'' @ [CHR 0x27])) \<and>
            version (heap s2 ! 1) = None \<and>
            print_installation_log_recursive 1000 s2 True [''a''] [] = Inl TypeError \<and>
            print_installation_log 1000 s2 ''a'' = Inl TypeError)) \<and>
   main pair_env (cache_args [''a'']) = ([], Some TypeError) \<and>
   exit_status pair_env (cache_args [''a'']) = 1"
  by code_simp

text \<open>Installation keeps the map and the shape of the objects, and it returns on a tree
  of objects of the cache; so does the report.\<close>

lemma same_shape_refl: "same_shape s s"
  by (simp add: same_shape_def)

lemma same_shape_trans: "same_shape s t \<Longrightarrow> same_shape t u \<Longrightarrow> same_shape s u"
  unfolding same_shape_def by simp

lemma same_shape_update:
  assumes "\<And>p. cls (f p) = cls p" "\<And>p. name (f p) = name p" "\<And>p. version (f p) = version p"
    "\<And>p. path (f p) = path p" "\<And>p. dependencies (f p) = dependencies p"
  shows "same_shape s (update_obj a f s)"
  unfolding same_shape_def update_obj_def
  by (simp add: update_keeps[of cls, OF assms(1)] update_keeps[of name, OF assms(2)]
      update_keeps[of version, OF assms(3)] update_keeps[of path, OF assms(4)]
      update_keeps[of dependencies, OF assms(5)])

lemma same_shape_calls: "same_shape s (s\<lparr>calls := c\<rparr>)"
  by (simp add: same_shape_def)

lemma same_shape_command: "same_shape s (snd (run_command e c s))"
  by (simp add: run_command_def same_shape_calls)

lemma tree_ok_shape:
  "same_shape s s' \<Longrightarrow> tree_ok k s n \<Longrightarrow> tree_ok k s' n"
proof (induction k arbitrary: n)
  case 0
  then show ?case by simp
next
  case (Suc k)
  from Suc.prems(2) obtain a where a: "pkg_dict s n = Some a" "a < length (heap s)"
    "cls (heap s ! a) = CachedPackage" "name (heap s ! a) \<noteq> None" "version (heap s ! a) \<noteq> None"
    "path (heap s ! a) \<noteq> None" "list_all (tree_ok k s) (dependencies (heap s ! a))"
    by (auto split: option.splits)
  have f: "pkg_dict s' n = Some a" "a < length (heap s')" "cls (heap s' ! a) = cls (heap s ! a)"
    "name (heap s' ! a) = name (heap s ! a)" "version (heap s' ! a) = version (heap s ! a)"
    "path (heap s' ! a) = path (heap s ! a)" "dependencies (heap s' ! a) = dependencies (heap s ! a)"
    using Suc.prems(1) a(1,2) unfolding same_shape_def by simp_all
  have "list_all (tree_ok k s') (dependencies (heap s ! a))"
    using a(7) Suc.IH[OF Suc.prems(1)] by (simp add: list_all_iff)
  then show ?case using a f by simp
qed

lemma cached_install_shape:
  assumes "path (heap s ! a) \<noteq> None"
  shows "\<exists>s'. CachedPackage_install e g a frc s = Inr s' \<and> same_shape s s'"
proof -
  obtain p where p: "path (heap s ! a) = Some p" using assms by auto
  define st where "st = installation_status (heap s ! a)"
  define cmd where "cmd = ([''pacman'', ''-U'', ''--noconfirm'', ''--noprogressbar'',
                           ''--cachedir'', pacman_cache_dir g]
                          @ (if st = 1 then [''--force''] else [])) @ [p]"
  obtain x s1 where r1: "run_command e cmd s = (x, s1)" by (cases "run_command e cmd s")
  obtain rc out err where r2: "x = (rc, out, err)" by (cases x)
  have c: "same_shape s s1" using same_shape_command[of s e cmd] r1 by simp
  have u: "same_shape s1 (update_obj a (\<lambda>q. q\<lparr>installation_status := i\<rparr>) s1)" for i
    by (rule same_shape_update) simp_all
  have v: "same_shape s1 (update_obj a (\<lambda>q. q\<lparr>installation_status := i, error_info := y q\<rparr>) s1)" for i y
    by (rule same_shape_update) simp_all
  show ?thesis
  proof (cases "st = 0 \<or> st = 2 \<or> frc")
    case False
    then have "CachedPackage_install e g a frc s = Inr s"
      by (simp add: CachedPackage_install_def st_def)
    then show ?thesis using same_shape_refl by blast
  next
    case True
    have "CachedPackage_install e g a frc s =
        (if rc \<noteq> 0 then
                         Inr (update_obj a (\<lambda>q. q\<lparr>installation_status := - 1,
                           error_info := Some (Exception (''Failed to install package ''
                             @ str_opt (name q) @ '' '' @ str_opt (version q) @ '': ''
                             @ join [CHR 0x0A] err))\<rparr>) s1)
                       else if st = 1
                         then Inr (update_obj a (\<lambda>q. q\<lparr>installation_status := 4\<rparr>) s1)
                         else Inr (update_obj a (\<lambda>q. q\<lparr>installation_status := 3\<rparr>) s1))"
      using True r1 r2 p unfolding CachedPackage_install_def Let_def st_def[symmetric] cmd_def
      by simp
    then show ?thesis using same_shape_trans[OF c u] same_shape_trans[OF c v] by auto
  qed
qed

lemma install_dependencies_shape:
  assumes IH: "\<And>n t. tree_ok k t n \<Longrightarrow> \<exists>t'. rec n t = Inr t' \<and> same_shape t t'"
  shows "\<forall>d\<in>set ds. tree_ok k s d \<Longrightarrow>
         \<exists>b s'. install_dependencies rec a ds s = Inr (b, s') \<and> same_shape s s'"
proof (induction ds arbitrary: s)
  case Nil
  then show ?case by (auto simp: same_shape_refl)
next
  case (Cons d ds)
  have ok: "tree_ok k s d" using Cons.prems by simp
  then obtain b where b: "pkg_dict s d = Some b"
    by (cases k) (auto split: option.splits)
  from IH[OF ok] obtain s1 where s1: "rec d s = Inr s1" "same_shape s s1" by blast
  have u: "same_shape s1 (update_obj a (\<lambda>p. p\<lparr>installation_status := - 2\<rparr>) s1)"
    by (rule same_shape_update) simp_all
  show ?case
  proof (cases "error_info (heap s1 ! b) \<noteq> None")
    case True
    then have "install_dependencies rec a (d # ds) s
        = Inr (False, update_obj a (\<lambda>p. p\<lparr>installation_status := - 2\<rparr>) s1)"
      using b s1(1) by simp
    then show ?thesis using same_shape_trans[OF s1(2) u] by blast
  next
    case False
    have "\<forall>d\<in>set ds. tree_ok k s1 d" using Cons.prems tree_ok_shape[OF s1(2)] by simp
    from Cons.IH[OF this] obtain c s' where
      "install_dependencies rec a ds s1 = Inr (c, s')" "same_shape s1 s'" by blast
    then show ?thesis using b s1 False same_shape_trans[OF s1(2)] by auto
  qed
qed

lemma install_package_recursive_shape:
  "tree_ok k s n \<Longrightarrow>
   \<exists>s'. install_package_recursive k e g uco frc n s = Inr s' \<and> same_shape s s'"
proof (induction k arbitrary: n s)
  case 0
  then show ?case by simp
next
  case (Suc k)
  from Suc.prems obtain a where a: "pkg_dict s n = Some a" "a < length (heap s)"
    "cls (heap s ! a) = CachedPackage" "path (heap s ! a) \<noteq> None"
    "list_all (tree_ok k s) (dependencies (heap s ! a))"
    by (auto split: option.splits)
  show ?case
  proof (cases "error_info (heap s ! a) \<noteq> None")
    case True
    then show ?thesis using a by (simp add: same_shape_refl)
  next
    case False
    have "\<forall>d\<in>set (dependencies (heap s ! a)). tree_ok k s d"
      using a(5) by (simp add: list_all_iff)
    from install_dependencies_shape[of k "install_package_recursive k e g uco frc", OF Suc.IH this]
    obtain b s1 where d: "install_dependencies (install_package_recursive k e g uco frc) a
                    (dependencies (heap s ! a)) s = Inr (b, s1)" "same_shape s s1"
      by blast
    show ?thesis
    proof (cases b)
      case True
      have "cls (heap s1 ! a) = CachedPackage" "path (heap s1 ! a) \<noteq> None"
        using d(2) a unfolding same_shape_def by simp_all
      then obtain s' where "install e g a frc s1 = Inr s'" "same_shape s1 s'"
        using cached_install_shape[of s1 a e g frc] by (auto simp: install_def)
      then show ?thesis using a False d True same_shape_trans[OF d(2)] by auto
    next
      case b: False
      then show ?thesis using a False d by auto
    qed
  qed
qed

lemma for_each_install_shape:
  "\<forall>n\<in>set ns. tree_ok k s n \<Longrightarrow>
   \<exists>s'. for_each (install_package_recursive k e g uco frc) ns s = Inr s' \<and> same_shape s s'"
proof (induction ns arbitrary: s)
  case Nil
  then show ?case by (simp add: same_shape_refl)
next
  case (Cons n ns)
  then have "tree_ok k s n" by simp
  from install_package_recursive_shape[OF this] obtain s1 where
    s1: "install_package_recursive k e g uco frc n s = Inr s1" "same_shape s s1" by blast
  have "\<forall>n\<in>set ns. tree_ok k s1 n" using Cons.prems tree_ok_shape[OF s1(2)] by simp
  from Cons.IH[OF this] obtain s' where
    "for_each (install_package_recursive k e g uco frc) ns s1 = Inr s'" "same_shape s1 s'" by blast
  then show ?case using s1 same_shape_trans[OF s1(2)] by auto
qed


lemma format_log_returns:
  "name p \<noteq> None \<Longrightarrow> version p \<noteq> None \<Longrightarrow> \<exists>l. format_log p msg prefix = Inr l"
  by (auto simp: format_log_def Let_def)

lemma log_line_returns:
  assumes "name p \<noteq> None" and "version p \<noteq> None"
  shows "\<exists>r. log_line p success lp ip = Inr r"
proof -
  have f: "\<exists>l. format_log p msg prefix = Inr l" for msg prefix
    using format_log_returns[OF assms] .
  show ?thesis
    unfolding log_line_def
    using f[of "''Dependency Failed: '' @ str_error (error_info p)" ip]
      f[of "''Failed: '' @ str_error (error_info p)" ip]
      f[of "''Skipped''" "[]"] f[of "''Successfully installed''" "[]"]
      f[of "''Successfully reinstalled''" "[]"]
    by auto
qed

lemma log_loop_returns:
  assumes rec: "\<And>ns pre. ns \<noteq> [] \<Longrightarrow> \<forall>n\<in>set ns. tree_ok k s n \<Longrightarrow> \<exists>r. rec ns pre = Inr r"
  shows "\<forall>n\<in>set (map (\<lambda>(pos, anchor, n). n) items). tree_ok (Suc k) s n \<Longrightarrow>
         \<exists>r. log_loop rec s prefix is_root items success log lp ip = Inr r"
proof (induction items arbitrary: success log lp ip)
  case Nil
  then show ?case by simp
next
  case (Cons item items)
  obtain pos anchor n where item: "item = (pos, anchor, n)" by (cases item)
  have "tree_ok (Suc k) s n" using Cons.prems item by simp
  then obtain a where a: "pkg_dict s n = Some a" "name (heap s ! a) \<noteq> None"
    "version (heap s ! a) \<noteq> None" "list_all (tree_ok k s) (dependencies (heap s ! a))"
    by (auto split: option.splits)
  define lp1 where "lp1 = (if is_root then [] else if anchor = 1 then prefix @ corner_connector else lp)"
  define ip1 where "ip1 = (if is_root then [] else if anchor = 1 then prefix @ ''    '' else ip)"
  define D where "D = (if length (dependencies (heap s ! a)) > 0
                       then rec (dependencies (heap s ! a)) ip1 else Inr (success, []))"
  have "\<exists>r. D = Inr r"
  proof (cases "length (dependencies (heap s ! a)) > 0")
    case True
    then have "dependencies (heap s ! a) \<noteq> []" by auto
    moreover have "\<forall>n\<in>set (dependencies (heap s ! a)). tree_ok k s n"
      using a(4) by (simp add: list_all_iff)
    ultimately show ?thesis using rec True unfolding D_def by simp
  next
    case False
    then show ?thesis unfolding D_def by simp
  qed
  then obtain success1 log_dep where D: "D = Inr (success1, log_dep)" by auto
  from log_line_returns[OF a(2,3)] obtain success2 ls where
    l: "log_line (heap s ! a) success1 lp1 ip1 = Inr (success2, ls)" by fastforce
  have rest: "\<forall>n\<in>set (map (\<lambda>(pos, anchor, n). n) items). tree_ok (Suc k) s n"
    using Cons.prems by simp
  have "log_loop rec s prefix is_root (item # items) success log lp ip
      = log_loop rec s prefix is_root items success2 (log @ ls @ log_dep) lp1 ip1"
    using a(1) D l unfolding item D_def lp1_def ip1_def by (simp add: Let_def)
  then show ?case using Cons.IH[OF rest] by simp
qed

lemma enumerate_names:
  "map (\<lambda>(pos, anchor, n). n) (enumerate_package_names ns) = ns"
proof -
  have "map (\<lambda>(pos, anchor, n). n) (enumerate_package_names ns) = map snd (enumerate 0 ns)"
    by (simp add: enumerate_package_names_def case_prod_beta comp_def)
  then show ?thesis by (simp add: enumerate_eq_zip)
qed

lemma print_installation_log_recursive_returns:
  "ns \<noteq> [] \<Longrightarrow> \<forall>n\<in>set ns. tree_ok k s n \<Longrightarrow>
   \<exists>r. print_installation_log_recursive k s is_root ns prefix = Inr r"
proof (induction k arbitrary: ns prefix is_root)
  case 0
  then show ?case by (cases ns) auto
next
  case (Suc k)
  have "\<forall>n\<in>set (map (\<lambda>(pos, anchor, n). n) (enumerate_package_names ns)). tree_ok (Suc k) s n"
    using Suc.prems(2) unfolding enumerate_names .
  from log_loop_returns[of k s "print_installation_log_recursive k s False", OF Suc.IH this]
  show ?case by simp
qed

lemma print_all_returns:
  "\<forall>n\<in>set ns. \<exists>r. f n = Inr r \<Longrightarrow>
   \<exists>reports. print_all f ns = (reports, None) \<and> map f ns = map Inr reports"
proof (induction ns)
  case Nil
  then show ?case by simp
next
  case (Cons n ns)
  then obtain r where r: "f n = Inr r" by auto
  from Cons obtain reports where "print_all f ns = (reports, None)" "map f ns = map Inr reports"
    by auto
  then have "print_all f (n # ns) = (r # reports, None) \<and> map f (n # ns) = map Inr (r # reports)"
    using r by simp
  then show ?case by blast
qed

text \<open>
  C2, as the code has it.  Take a run as root in which resolution returns and the tree of
  every requested package, followed through the map, has only objects of the cache with a
  name, a version and a path and is no deeper than the recursion limit.  Whatever fails in
  it (an archive that cannot be read, a failed installation, a failed dependency), the
  installation returns, the report of every requested package is rendered from the state
  that the installation leaves, \<^verbatim>\<open>main\<close> ends without an exception, and the exit status
  is 0.
\<close>

theorem failing_run_completes:
  assumes root: "geteuid e = 0"
    and res: "for_each (get_package_recursive (recursionlimit e) e (initial_globals e args))
                (map lower (package_names args)) (initial_state e args) = Inr s1"
    and ok: "\<forall>n\<in>set (map lower (package_names args)). tree_ok (recursionlimit e) s1 n"
  shows "\<exists>s2 reports.
           for_each (install_package_recursive (recursionlimit e) e (initial_globals e args)
                       (use_cache_only args) (force args)) (map lower (package_names args)) s1 = Inr s2 \<and>
           map (print_installation_log (recursionlimit e) s2) (map lower (package_names args))
             = map Inr reports \<and>
           main e args = (reports, None) \<and> exit_status e args = 0"
proof -
  from for_each_install_shape[OF ok] obtain s2 where
    s2: "for_each (install_package_recursive (recursionlimit e) e (initial_globals e args)
                       (use_cache_only args) (force args)) (map lower (package_names args)) s1 = Inr s2"
      "same_shape s1 s2"
    by blast
  have ok2: "\<forall>n\<in>set (map lower (package_names args)). tree_ok (recursionlimit e) s2 n"
    using ok tree_ok_shape[OF s2(2)] by blast
  have "\<forall>n\<in>set (map lower (package_names args)).
          \<exists>r. print_installation_log (recursionlimit e) s2 n = Inr r"
    using ok2 print_installation_log_recursive_returns[of _ "recursionlimit e" s2 True "[]"]
    by (simp add: print_installation_log_def)
  from print_all_returns[OF this] obtain reports where
    r: "print_all (print_installation_log (recursionlimit e) s2) (map lower (package_names args))
          = (reports, None)"
      "map (print_installation_log (recursionlimit e) s2) (map lower (package_names args))
          = map Inr reports"
    by blast
  have m: "main e args = (reports, None)"
    using root res s2(1) r(1) by (simp add: main_def Let_def)
  then have "exit_status e args = 0" by (simp add: exit_status_def)
  then show ?thesis using s2(1) r(2) m by blast
qed


lemma failed_run: "main broken_env (cache_args [''foo'']) =
     ([(False, [''foo 1.0-1: Failed: Failed to parse package file name ''
                 @ [CHR 0x27] @ ''/c/foo-1.0-1-any.pkg.tar.xz'' @ [CHR 0x27]])], None)"
  by code_simp

lemma rotten_run: "main rotten_env (cache_args [''a'']) =
     ([(False, [''a 1.0-1: Dependency Failed: None'',
                corner_connector @ ''b 1.0-1: Failed: Failed to parse package file name ''
                  @ [CHR 0x27] @ ''/c/b-1.0-1-any.pkg.tar.xz'' @ [CHR 0x27]])], None)"
  by code_simp

lemma broken_resolved:
  "case for_each (get_package_recursive 1000 broken_env (initial_globals broken_env (cache_args [''foo''])))
          (map lower (package_names (cache_args [''foo'']))) (initial_state broken_env (cache_args [''foo''])) of
     Inl x \<Rightarrow> False
   | Inr s1 \<Rightarrow> list_all (tree_ok 1000 s1) (map lower (package_names (cache_args [''foo''])))"
  by code_simp

lemma rotten_resolved:
  "case for_each (get_package_recursive 1000 rotten_env (initial_globals rotten_env (cache_args [''a''])))
          (map lower (package_names (cache_args [''a'']))) (initial_state rotten_env (cache_args [''a''])) of
     Inl x \<Rightarrow> False
   | Inr s1 \<Rightarrow> list_all (tree_ok 1000 s1) (map lower (package_names (cache_args [''a''])))"
  by code_simp

lemma run_env_fields:
  "geteuid broken_env = 0" "recursionlimit broken_env = 1000"
  "geteuid rotten_env = 0" "recursionlimit rotten_env = 1000"
  by (simp_all add: broken_env_def rotten_env_def dir_env_def)

theorem failing_run_completes_witness:
  "geteuid broken_env = 0 \<and>
   main broken_env (cache_args [''foo'']) =
     ([(False, [''foo 1.0-1: Failed: Failed to parse package file name ''
                 @ [CHR 0x27] @ ''/c/foo-1.0-1-any.pkg.tar.xz'' @ [CHR 0x27]])], None) \<and>
   exit_status broken_env (cache_args [''foo'']) = 0 \<and>
   geteuid rotten_env = 0 \<and>
   main rotten_env (cache_args [''a'']) =
     ([(False, [''a 1.0-1: Dependency Failed: None'',
                corner_connector @ ''b 1.0-1: Failed: Failed to parse package file name ''
                  @ [CHR 0x27] @ ''/c/b-1.0-1-any.pkg.tar.xz'' @ [CHR 0x27]])], None) \<and>
   exit_status rotten_env (cache_args [''a'']) = 0"
proof -
  obtain s1 where s1:
    "for_each (get_package_recursive (recursionlimit broken_env) broken_env
                 (initial_globals broken_env (cache_args [''foo''])))
          (map lower (package_names (cache_args [''foo''])))
          (initial_state broken_env (cache_args [''foo''])) = Inr s1"
    "\<forall>n\<in>set (map lower (package_names (cache_args [''foo'']))). tree_ok (recursionlimit broken_env) s1 n"
    using broken_resolved unfolding run_env_fields by (auto simp: list_all_iff split: sum.splits)
  have a: "exit_status broken_env (cache_args [''foo'']) = 0"
    using failing_run_completes[OF run_env_fields(1) s1] by blast
  obtain t1 where t1:
    "for_each (get_package_recursive (recursionlimit rotten_env) rotten_env
                 (initial_globals rotten_env (cache_args [''a''])))
          (map lower (package_names (cache_args [''a''])))
          (initial_state rotten_env (cache_args [''a''])) = Inr t1"
    "\<forall>n\<in>set (map lower (package_names (cache_args [''a'']))). tree_ok (recursionlimit rotten_env) t1 n"
    using rotten_resolved unfolding run_env_fields by (auto simp: list_all_iff split: sum.splits)
  have b: "exit_status rotten_env (cache_args [''a'']) = 0"
    using failing_run_completes[OF run_env_fields(3) t1] by blast
  show ?thesis using a b failed_run rotten_run run_env_fields(1,3) by simp
qed

text \<open>The claim C2 as it is written fails: the only archive of the cache cannot be read,
  the requested package ends in failure, its report is printed, and the exit status is 0.\<close>

theorem failed_run_exits_zero_counterexample:
  "main broken_env (cache_args [''foo'']) =
     ([(False, [''foo 1.0-1: Failed: Failed to parse package file name ''
                 @ [CHR 0x27] @ ''/c/foo-1.0-1-any.pkg.tar.xz'' @ [CHR 0x27]])], None) \<and>
   \<not> exit_status broken_env (cache_args [''foo'']) \<noteq> 0"
  by (simp add: failed_run exit_status_def)

section \<open>Requested names\<close>

lemma lower_char_idem: "lower_char (lower_char c) = lower_char c"
  by (simp add: lower_char_def)

lemma lower_idem: "lower (lower r) = lower r"
  by (simp add: lower_def lower_char_idem)

lemma get_dependencies_kept:
  assumes ok: "\<forall>d\<in>set ds. \<forall>h. fst (subprocess e h [''package-query'', ''-QASiif'', ''%n'', strip_constraint d]) = 0"
  shows "fst (get_dependencies_from_alias e ds acc s) = Inr (acc @ map strip_constraint ds)"
  using ok
proof (induction ds arbitrary: acc s)
  case Nil
  then show ?case by simp
next
  case (Cons d ds)
  have "fst (subprocess e (calls s) [''package-query'', ''-QASiif'', ''%n'', strip_constraint d]) = 0"
    using Cons.prems by simp
  then obtain out err where
    "subprocess e (calls s) [''package-query'', ''-QASiif'', ''%n'', strip_constraint d] = (0, out, err)"
    by (cases "subprocess e (calls s) [''package-query'', ''-QASiif'', ''%n'', strip_constraint d]") auto
  then show ?case using Cons.IH Cons.prems by (simp add: run_command_def Let_def)
qed

text \<open>
  C10: \<^verbatim>\<open>main\<close> uses the requested names only in lower case, so two runs whose names
  are equal once lowered print the same and end with the same exit status.  The cache
  lookup compares names exactly: the record it returns for a lowered name has that very
  name, so a record whose name contains an upper-case letter is never returned for a
  requested name.  The dependency names of a descriptor are kept as written (but for the
  version constraint) when the alias query succeeds.
\<close>

theorem requested_names_lowercased:
  "(map lower ns = map lower ns' \<longrightarrow>
      main e (args\<lparr>package_names := ns\<rparr>) = main e (args\<lparr>package_names := ns'\<rparr>) \<and>
      exit_status e (args\<lparr>package_names := ns\<rparr>) = exit_status e (args\<lparr>package_names := ns'\<rparr>)) \<and>
   (get_cached_package e g (lower r) s = Inr (Some a, s') \<longrightarrow> name (heap s ! a) = Some (lower r)) \<and>
   (name (heap s ! b) = Some m \<and> lower m \<noteq> m \<longrightarrow> get_cached_package e g (lower r) s \<noteq> Inr (Some b, s')) \<and>
   ((\<forall>d\<in>set ds. \<forall>h. fst (subprocess e h [''package-query'', ''-QASiif'', ''%n'', strip_constraint d]) = 0) \<longrightarrow>
      fst (get_dependencies_from_alias e ds [] s) = Inr (map strip_constraint ds))"
proof (intro conjI impI)
  assume "map lower ns = map lower ns'"
  then show "main e (args\<lparr>package_names := ns\<rparr>) = main e (args\<lparr>package_names := ns'\<rparr>)"
    by (simp add: main_def initial_globals_def initial_state_def Let_def cong: sum.case_cong)
  then show "exit_status e (args\<lparr>package_names := ns\<rparr>) = exit_status e (args\<lparr>package_names := ns'\<rparr>)"
    by (simp add: exit_status_def)
next
  assume "get_cached_package e g (lower r) s = Inr (Some a, s')"
  then show "name (heap s ! a) = Some (lower r)" using get_cached_package_name by blast
next
  assume h: "name (heap s ! b) = Some m \<and> lower m \<noteq> m"
  show "get_cached_package e g (lower r) s \<noteq> Inr (Some b, s')"
  proof
    assume "get_cached_package e g (lower r) s = Inr (Some b, s')"
    then have "name (heap s ! b) = Some (lower r)" using get_cached_package_name by blast
    then have "m = lower r" using h by simp
    then show False using h lower_idem by simp
  qed
next
  assume "\<forall>d\<in>set ds. \<forall>h. fst (subprocess e h [''package-query'', ''-QASiif'', ''%n'', strip_constraint d]) = 0"
  then show "fst (get_dependencies_from_alias e ds [] s) = Inr (map strip_constraint ds)"
    using get_dependencies_kept[of ds e "[]" s] by simp
qed

lemma capital_facts:
  "map lower [''A''] = map lower [''a'']"
  "name (heap capital_state ! 1) = Some ''B''"
  "lower ''B'' \<noteq> ''B''"
  "chached_versions capital_globals (lower ''B'') capital_state = []"
  "strip_constraint ''B'' = ''B''"
  "fst (main capital_env (cache_args [''A''])) =
     [(True, [''a 1.0-1: Successfully installed'', corner_connector @ ''B 2.0-1: Successfully installed''])]"
  "main capital_env (cache_args [''B'']) = ([], Some TypeError)"
  by code_simp+

lemma capital_query:
  "\<forall>d\<in>set [''B'']. \<forall>h. fst (subprocess capital_env h [''package-query'', ''-QASiif'', ''%n'', strip_constraint d]) = 0"
  by (simp add: capital_facts(5) capital_env_def dir_env_def answers_def)

theorem requested_names_lowercased_witness:
  "map lower [''A''] = map lower [''a''] \<and>
   main capital_env (cache_args [''A'']) = main capital_env (cache_args [''a'']) \<and>
   fst (main capital_env (cache_args [''A''])) =
     [(True, [''a 1.0-1: Successfully installed'', corner_connector @ ''B 2.0-1: Successfully installed''])] \<and>
   name (heap capital_state ! 1) = Some ''B'' \<and> lower ''B'' \<noteq> ''B'' \<and>
   get_cached_package capital_env capital_globals (lower ''B'') capital_state = Inr (None, capital_state) \<and>
   main capital_env (cache_args [''B'']) = ([], Some TypeError) \<and>
   fst (get_dependencies_from_alias capital_env [''B''] [] capital_state) = Inr [''B'']"
proof -
  have a: "(cache_args [])\<lparr>package_names := [''A'']\<rparr> = cache_args [''A'']"
    "(cache_args [])\<lparr>package_names := [''a'']\<rparr> = cache_args [''a'']"
    by (simp_all add: cache_args_def)
  have miss: "get_cached_package capital_env capital_globals (lower ''B'') capital_state = Inr (None, capital_state)"
    by (simp add: get_cached_package_def capital_facts(4))
  show ?thesis
    using requested_names_lowercased[of "[''A'']" "[''a'']" capital_env "cache_args []"
        capital_globals "''B''" capital_state 1 capital_state 1 "''B''" "[''B'']"]
      capital_facts capital_query miss a
    by simp
qed

end
